theory Spec2Isabelle
  imports Complex_Main "HOL-Library.Sublist" "HOL-Library.Char_ord" "HOL-Library.List_Lexorder"
begin

section \<open>FeedPulse: the classifier gateway, the query service and the insight engine\<close>

text \<open>
  A shallow embedding of \<^verbatim>\<open>src/src/index.ts\<close>. Every handler reads a snapshot of the
  store and computes a pure function of it, so a handler is a function of the rows (and
  of the request). What the source takes from the language or the platform is a
  parameter: \<^verbatim>\<open>JSON.parse\<close>, the conversions between numbers and strings, the
  classifier call, the clock.

  Strings are lists of code units below 256 (Latin-1); JavaScript's strings hold 16-bit
  code units, and the model says nothing about the others.
\<close>

subsection \<open>Strings: \<^verbatim>\<open>toLowerCase\<close> and \<^verbatim>\<open>trim\<close>\<close>

definition toLowerChar :: "char \<Rightarrow> char" where
  "toLowerChar c =
     (let n = (of_char c :: int)
      in if (65 \<le> n \<and> n \<le> 90) \<or> (192 \<le> n \<and> n \<le> 222 \<and> n \<noteq> 215)
         then char_of (n + 32) else c)"

definition toLowerCase :: "string \<Rightarrow> string" where
  "toLowerCase s = map toLowerChar s"

text \<open>White space and line terminators of ECMAScript below 256: TAB, LF, VT, FF, CR,
  SP and NBSP.\<close>

definition isWhiteSpace :: "char \<Rightarrow> bool" where
  "isWhiteSpace c = ((of_char c :: int) \<in> set [9, 10, 11, 12, 13, 32, 160])"

definition trim :: "string \<Rightarrow> string" where
  "trim s = rev (dropWhile isWhiteSpace (rev (dropWhile isWhiteSpace s)))"

subsection \<open>Numbers: double precision\<close>

text \<open>
  The insights divide and multiply counts, and the results are compared with 0.1 and
  rounded at a half, so the rounding of each operation matters. A number is the rational
  it denotes; \<open>fl\<close> rounds a rational to the nearest double (53 significant bits, a tie
  to the even significand). The exponent range is not bounded: the quotients below are
  of integers far inside it. Sums and differences of counts are integers below \<open>2^53\<close>
  and exact.
\<close>

text \<open>The number of binary digits of a positive integer.\<close>

function bits :: "int \<Rightarrow> int" where
  "bits n = (if n \<le> 0 then 0 else 1 + bits (n div 2))"
  by pat_completeness auto
termination
  by (relation "measure nat") auto

declare bits.simps [simp del]

definition round_half_even :: "rat \<Rightarrow> int" where
  "round_half_even m =
     (let f = \<lfloor>m\<rfloor>; d = m - of_int f
      in if d < 1 / 2 then f else if 1 / 2 < d then f + 1 else if even f then f else f + 1)"

text \<open>The \<open>e\<close> with \<open>2^e \<le> |x| < 2^(e+1)\<close>, for \<open>x\<close> other than 0.\<close>

definition binade :: "rat \<Rightarrow> int" where
  "binade x =
     (let (a, b) = quotient_of \<bar>x\<bar>; e0 = bits a - bits b
      in if 2 powi e0 \<le> \<bar>x\<bar> then e0 else e0 - 1)"

definition fl :: "rat \<Rightarrow> rat" where
  "fl x = (if x = 0 then 0
           else (let u = 2 powi (binade x - 52) in of_int (round_half_even (x / u)) * u))"

definition js_div :: "rat \<Rightarrow> rat \<Rightarrow> rat" where
  "js_div a b = fl (a / b)"

definition js_mul :: "rat \<Rightarrow> rat \<Rightarrow> rat" where
  "js_mul a b = fl (a * b)"

definition js_sub :: "rat \<Rightarrow> rat \<Rightarrow> rat" where
  "js_sub a b = fl (a - b)"

text \<open>An integer as a number of the language: the nearest double, which is an integer
  again. Below \<open>2^53\<close> it is the integer itself (\<open>to_double_exact\<close>).\<close>

definition to_double :: "int \<Rightarrow> int" where
  "to_double v = \<lfloor>fl (of_int v)\<rfloor>"

subsection \<open>JSON values and the conversions of the language\<close>

datatype json =
    JNull
  | JBool bool
  | JNum rat
  | JStr string
  | JArr "json list"
  | JObj "(string \<times> json) list"

text \<open>
  The built-ins the gateway calls. \<open>JSON_parse\<close> is \<open>None\<close> where \<^verbatim>\<open>JSON.parse\<close>
  throws; \<open>StringToNumber\<close> is \<open>None\<close> where the conversion gives \<^verbatim>\<open>NaN\<close>.
  A number is a rational here: every finite double is one.
\<close>

record builtins =
  JSON_parse :: "string \<Rightarrow> json option"
  Number_toString :: "rat \<Rightarrow> string"
  StringToNumber :: "string \<Rightarrow> rat option"

fun intercalate :: "string \<Rightarrow> string list \<Rightarrow> string" where
  "intercalate sep [] = []"
| "intercalate sep [x] = x"
| "intercalate sep (x # y # ys) = x @ sep @ intercalate sep (y # ys)"

text \<open>
  \<^verbatim>\<open>String(v)\<close>; \<open>None\<close> where the conversion throws. Inside
  \<^verbatim>\<open>Array.prototype.join\<close> a \<^verbatim>\<open>null\<close> element is the empty string. An object is
  converted by its \<^verbatim>\<open>toString\<close>: the inherited one gives \<^verbatim>\<open>[object Object]\<close>; an own
  property of that name, which in a parsed value is never a function, hides it, and the
  conversion throws a \<^verbatim>\<open>TypeError\<close> (the inherited \<^verbatim>\<open>valueOf\<close> returns the object).
\<close>

fun String_js :: "builtins \<Rightarrow> json \<Rightarrow> string option" where
  "String_js env JNull = Some ''null''"
| "String_js env (JBool b) = Some (if b then ''true'' else ''false'')"
| "String_js env (JNum r) = Some (Number_toString env r)"
| "String_js env (JStr s) = Some s"
| "String_js env (JArr xs) =
     map_option (intercalate '','')
       (those (map (\<lambda>x. if x = JNull then Some [] else String_js env x) xs))"
| "String_js env (JObj kvs) =
     (if map_of kvs ''toString'' \<noteq> None then None else Some ''[object Object]'')"

text \<open>\<^verbatim>\<open>ToNumber\<close> of a property value; \<open>None\<close> as argument is \<^verbatim>\<open>undefined\<close>. The
  result is \<open>None\<close> where the conversion throws, \<open>Some None\<close> for \<^verbatim>\<open>NaN\<close>, and the
  number otherwise. An array or an object is converted to a string first.\<close>

fun ToNumber :: "builtins \<Rightarrow> json option \<Rightarrow> rat option option" where
  "ToNumber env None = Some None"
| "ToNumber env (Some JNull) = Some (Some 0)"
| "ToNumber env (Some (JBool b)) = Some (Some (if b then 1 else 0))"
| "ToNumber env (Some (JNum r)) = Some (Some r)"
| "ToNumber env (Some (JStr s)) = Some (StringToNumber env s)"
| "ToNumber env (Some (JArr xs)) = map_option (StringToNumber env) (String_js env (JArr xs))"
| "ToNumber env (Some (JObj kvs)) = map_option (StringToNumber env) (String_js env (JObj kvs))"

text \<open>\<^verbatim>\<open>Math.round\<close>: the nearest integer, a half rounded up.\<close>

definition Math_round :: "rat \<Rightarrow> int" where
  "Math_round x = \<lfloor>x + 1 / 2\<rfloor>"

text \<open>Reading a property of a parsed value: the last binding of a repeated key is the
  one \<^verbatim>\<open>JSON.parse\<close> keeps; a value that is no object has none of the four.\<close>

fun get_prop :: "json \<Rightarrow> string \<Rightarrow> json option" where
  "get_prop (JObj kvs) k = map_of (rev kvs) k"
| "get_prop v k = None"

subsection \<open>The classifier gateway: \<^verbatim>\<open>analyzeFeedback\<close>\<close>

text \<open>The analysis carries its themes as a list of strings; a stored row carries them
  as text (see below), so the record is generic in the themes.\<close>

record 'th FeedbackAnalysis =
  sentiment :: string
  category :: string
  priority :: int
  themes :: 'th

definition default_analysis :: "string list FeedbackAnalysis" where
  "default_analysis =
     \<lparr>sentiment = ''neutral'', category = ''complaint'', priority = 3, themes = []\<rparr>"

text \<open>\<^verbatim>\<open>text.match(/\{[\s\S]*\}/)\<close>: from the first opening brace to the last closing
  brace after it.\<close>

definition jsonMatch :: "string \<Rightarrow> string option" where
  "jsonMatch txt =
     (let rest = dropWhile (\<lambda>c. c \<noteq> CHR ''{'') txt
      in if CHR ''}'' \<in> set rest
         then Some (rev (dropWhile (\<lambda>c. c \<noteq> CHR ''}'') (rev rest)))
         else None)"

definition sanitize_sentiment :: "json option \<Rightarrow> string" where
  "sanitize_sentiment v =
     (case v of
        Some (JStr s) \<Rightarrow>
          if s \<in> set [''positive'', ''negative'', ''neutral''] then s else ''neutral''
      | _ \<Rightarrow> ''neutral'')"

definition sanitize_category :: "json option \<Rightarrow> string" where
  "sanitize_category v =
     (case v of
        Some (JStr s) \<Rightarrow>
          if s \<in> set [''bug'', ''feature'', ''praise'', ''complaint''] then s
          else ''complaint''
      | _ \<Rightarrow> ''complaint'')"

text \<open>\<^verbatim>\<open>Math.min(5, Math.max(1, Math.round(analysis.priority) || 3))\<close>: the operand
  of \<^verbatim>\<open>||\<close> is falsy when it is \<^verbatim>\<open>NaN\<close> and when it is zero.\<close>

definition or_3 :: "int option \<Rightarrow> int" where
  "or_3 v = (case v of None \<Rightarrow> 3 | Some k \<Rightarrow> if k = 0 then 3 else k)"

definition sanitize_priority :: "builtins \<Rightarrow> json option \<Rightarrow> int option" where
  "sanitize_priority env v =
     map_option (\<lambda>n. min 5 (max 1 (or_3 (map_option Math_round n)))) (ToNumber env v)"

definition sanitize_themes :: "builtins \<Rightarrow> json option \<Rightarrow> string list option" where
  "sanitize_themes env v =
     (case v of
        Some (JArr xs) \<Rightarrow>
          those (map (\<lambda>t. map_option (\<lambda>s. trim (toLowerCase s)) (String_js env t)) (take 5 xs))
      | _ \<Rightarrow> Some [])"

text \<open>
  The classifier call is \<open>ai\<close>: \<open>None\<close> where the call throws or its result has no
  response text (the \<^verbatim>\<open>match\<close> on it throws), and the text otherwise. The prompt is a
  fixed function of the content, so \<open>ai\<close> takes the content. Every throw inside the
  \<^verbatim>\<open>try\<close> block ends in the \<^verbatim>\<open>catch\<close>, which returns the defaults; reading a
  property of a parsed \<^verbatim>\<open>null\<close> is such a throw, and so is a conversion of the
  priority or of a theme that throws.
\<close>

definition analyzeFeedback :: "builtins \<Rightarrow> (string \<Rightarrow> string option) \<Rightarrow> string \<Rightarrow> string list FeedbackAnalysis" where
  "analyzeFeedback env ai content =
     (case ai content of
        None \<Rightarrow> default_analysis
      | Some txt \<Rightarrow>
          (case jsonMatch txt of
             None \<Rightarrow> default_analysis
           | Some matched \<Rightarrow>
               (case JSON_parse env matched of
                  None \<Rightarrow> default_analysis
                | Some JNull \<Rightarrow> default_analysis
                | Some analysis \<Rightarrow>
                    (case (sanitize_priority env (get_prop analysis ''priority''),
                           sanitize_themes env (get_prop analysis ''themes'')) of
                       (Some p, Some ts) \<Rightarrow>
                         \<lparr>sentiment = sanitize_sentiment (get_prop analysis ''sentiment''),
                          category = sanitize_category (get_prop analysis ''category''),
                          priority = p, themes = ts\<rparr>
                     | _ \<Rightarrow> default_analysis))))"

text \<open>An environment for examples: \<^verbatim>\<open>JSON.parse\<close> decodes the matched text to \<open>v\<close>.
  The two conversions are not reached by the examples that use it.\<close>

definition env_decoding :: "json \<Rightarrow> builtins" where
  "env_decoding v =
     \<lparr>JSON_parse = (\<lambda>s. Some v), Number_toString = (\<lambda>r. []), StringToNumber = (\<lambda>s. None)\<rparr>"

subsection \<open>Stored rows\<close>

text \<open>
  A row of the table \<^verbatim>\<open>feedback\<close> (\<^verbatim>\<open>schema.sql\<close>). Its \<open>themes\<close> column is text;
  every reader decodes it with
  \<^verbatim>\<open>typeof f.themes === 'string' ? JSON.parse(f.themes) : f.themes\<close>, and the row of
  the model holds the outcome of that expression: \<open>None\<close> where \<^verbatim>\<open>JSON.parse\<close> throws
  on the stored text, \<open>Some JNull\<close> for a column that is \<^verbatim>\<open>NULL\<close>, and the decoded value
  otherwise.
\<close>

record 'th Feedback = "'th FeedbackAnalysis" +
  row_id :: int
  source :: string
  content :: string
  created_at :: string

type_synonym stored = "json option Feedback"

subsection \<open>The query service: \<^verbatim>\<open>handleGetFeedback\<close>\<close>

text \<open>The query string: \<^verbatim>\<open>url.searchParams.get\<close> is a string or \<^verbatim>\<open>null\<close>.\<close>

record searchParams =
  source_param :: "string option"
  sentiment_param :: "string option"
  category_param :: "string option"
  priority_param :: "string option"
  dateRange_param :: "string option"
  page_param :: "string option"
  limit_param :: "string option"

text \<open>\<^verbatim>\<open>parseInt\<close> with no radix: leading white space, a sign, the prefix \<^verbatim>\<open>0x\<close> for
  base 16, then the longest run of digits; \<open>None\<close> is \<^verbatim>\<open>NaN\<close> (no digit). The result
  is a number of the language: the integer the digits denote, rounded to a double.\<close>

definition digit_of :: "char \<Rightarrow> int option" where
  "digit_of c =
     (let n = (of_char c :: int)
      in if 48 \<le> n \<and> n \<le> 57 then Some (n - 48)
         else if 97 \<le> n \<and> n \<le> 102 then Some (n - 87)
         else if 65 \<le> n \<and> n \<le> 70 then Some (n - 55)
         else None)"

definition is_digit :: "int \<Rightarrow> char \<Rightarrow> bool" where
  "is_digit radix c = (case digit_of c of None \<Rightarrow> False | Some d \<Rightarrow> d < radix)"

definition digits_value :: "int \<Rightarrow> string \<Rightarrow> int" where
  "digits_value radix ds = foldl (\<lambda>a c. a * radix + (case digit_of c of None \<Rightarrow> 0 | Some d \<Rightarrow> d)) 0 ds"

fun strip_sign :: "string \<Rightarrow> bool \<times> string" where
  "strip_sign (c # cs) =
     (if c = CHR ''-'' then (True, cs) else if c = CHR ''+'' then (False, cs)
      else (False, c # cs))"
| "strip_sign [] = (False, [])"

fun strip_radix :: "string \<Rightarrow> int \<times> string" where
  "strip_radix (a # b # cs) =
     (if a = CHR ''0'' \<and> (b = CHR ''x'' \<or> b = CHR ''X'') then (16, cs)
      else (10, a # b # cs))"
| "strip_radix cs = (10, cs)"

definition parseInt :: "string \<Rightarrow> int option" where
  "parseInt s =
     (let (neg, s2) = strip_sign (dropWhile isWhiteSpace s);
          (radix, s3) = strip_radix s2;
          ds = takeWhile (is_digit radix) s3
      in if ds = [] then None
         else Some ((if neg then - 1 else 1) * to_double (digits_value radix ds)))"

text \<open>\<^verbatim>\<open>Math.max\<close> and \<^verbatim>\<open>Math.min\<close> against a constant: \<^verbatim>\<open>NaN\<close> in, \<^verbatim>\<open>NaN\<close> out.\<close>

definition Math_max :: "int \<Rightarrow> int option \<Rightarrow> int option" where
  "Math_max a v = map_option (max a) v"

definition Math_min :: "int \<Rightarrow> int option \<Rightarrow> int option" where
  "Math_min a v = map_option (min a) v"

text \<open>\<^verbatim>\<open>get(name) || dflt\<close>: \<^verbatim>\<open>null\<close> and the empty string are falsy.\<close>

definition or_default :: "string option \<Rightarrow> string \<Rightarrow> string" where
  "or_default v dflt = (case v of None \<Rightarrow> dflt | Some s \<Rightarrow> if s = [] then dflt else s)"

definition param_value :: "string option \<Rightarrow> string" where
  "param_value v = (case v of None \<Rightarrow> [] | Some s \<Rightarrow> s)"

definition truthy :: "string option \<Rightarrow> bool" where
  "truthy v = (case v of None \<Rightarrow> False | Some s \<Rightarrow> s \<noteq> [])"

definition effective_page :: "searchParams \<Rightarrow> int option" where
  "effective_page q = Math_max 1 (parseInt (or_default (page_param q) ''1''))"

definition effective_limit :: "searchParams \<Rightarrow> int option" where
  "effective_limit q =
     Math_min 100 (Math_max 1 (parseInt (or_default (limit_param q) ''10'')))"

text \<open>\<^verbatim>\<open>(page - 1) * limit\<close>: a difference and a product of doubles.\<close>

definition js_offset :: "int \<Rightarrow> int \<Rightarrow> int" where
  "js_offset p l = to_double (to_double (p - 1) * l)"

definition effective_offset :: "searchParams \<Rightarrow> int option" where
  "effective_offset q =
     (case (effective_page q, effective_limit q) of
        (Some p, Some l) \<Rightarrow> Some (js_offset p l)
      | _ \<Rightarrow> None)"

text \<open>
  The \<^verbatim>\<open>WHERE\<close> clause with its bound parameters, one condition for each
  \<^verbatim>\<open>AND ... ?\<close> the handler appends, in the handler's order. The priority is bound as
  \<^verbatim>\<open>parseInt(priority)\<close>, which may be \<^verbatim>\<open>NaN\<close>.
\<close>

datatype condition =
    Source_eq string
  | Sentiment_eq string
  | Category_eq string
  | Priority_eq "int option"
  | Created_at_ge string

definition dateThreshold :: "int \<Rightarrow> string \<Rightarrow> int option" where
  "dateThreshold now dateRange =
     (if dateRange = ''24h'' then Some (now - 24 * 60 * 60 * 1000)
      else if dateRange = ''7d'' then Some (now - 7 * 24 * 60 * 60 * 1000)
      else if dateRange = ''30d'' then Some (now - 30 * 24 * 60 * 60 * 1000)
      else None)"

text \<open>\<open>now\<close> is \<^verbatim>\<open>new Date().getTime()\<close> and \<open>toISOString\<close> the method of that name
  on the date of a time value.\<close>

definition whereClause :: "(int \<Rightarrow> string) \<Rightarrow> int \<Rightarrow> searchParams \<Rightarrow> condition list" where
  "whereClause toISOString now q =
     (if truthy (source_param q) then [Source_eq (param_value (source_param q))] else []) @
     (if truthy (sentiment_param q) then [Sentiment_eq (param_value (sentiment_param q))] else []) @
     (if truthy (category_param q) then [Category_eq (param_value (category_param q))] else []) @
     (if truthy (priority_param q)
      then [Priority_eq (parseInt (param_value (priority_param q)))] else []) @
     (if truthy (dateRange_param q)
      then (case dateThreshold now (param_value (dateRange_param q)) of
              None \<Rightarrow> []
            | Some t \<Rightarrow> [Created_at_ge (toISOString t)])
      else [])"

text \<open>
  The store. A row satisfies the clause when it satisfies every condition; text is
  compared as SQLite compares it (code unit by code unit). A parameter that is
  \<^verbatim>\<open>NaN\<close> reaches SQLite as \<^verbatim>\<open>NULL\<close>, and a comparison with \<^verbatim>\<open>NULL\<close> selects no
  row.
\<close>

fun holds :: "condition \<Rightarrow> stored \<Rightarrow> bool" where
  "holds (Source_eq s) r = (source r = s)"
| "holds (Sentiment_eq s) r = (sentiment r = s)"
| "holds (Category_eq s) r = (category r = s)"
| "holds (Priority_eq v) r = (case v of None \<Rightarrow> False | Some n \<Rightarrow> priority r = n)"
| "holds (Created_at_ge t) r = (t \<le> created_at r)"

definition selects :: "condition list \<Rightarrow> stored \<Rightarrow> bool" where
  "selects conds r = list_all (\<lambda>c. holds c r) conds"

text \<open>
  \<^verbatim>\<open>ORDER BY created_at DESC\<close> is the store's: the order of rows of one timestamp
  depends on the plan SQLite picks and is no function of the rows alone. The handler
  takes the ordering of the store as a parameter \<open>order_by\<close>; what is known of it is
  that its result is the given rows, each as often as given, with no timestamp before a
  later one. Every page of one listing is cut from the same ordering.
\<close>

definition created_at_desc :: "stored list \<Rightarrow> bool" where
  "created_at_desc rows = sorted_wrt (\<lambda>a b. created_at b \<le> created_at a) rows"

definition orders_by_created_at_desc :: "(stored list \<Rightarrow> stored list) \<Rightarrow> bool" where
  "orders_by_created_at_desc order_by =
     (\<forall>rows. created_at_desc (order_by rows)
        \<and> (\<forall>r. count_list (order_by rows) r = count_list rows r))"

text \<open>One such ordering, for the examples: rows of one timestamp in the order of the
  snapshot.\<close>

fun insert_desc :: "stored \<Rightarrow> stored list \<Rightarrow> stored list" where
  "insert_desc r [] = [r]"
| "insert_desc r (x # xs) =
     (if created_at x \<le> created_at r then r # x # xs else x # insert_desc r xs)"


text \<open>\<^verbatim>\<open>SELECT COUNT(*) as total FROM feedback WHERE ...\<close>\<close>

definition countQuery :: "condition list \<Rightarrow> stored list \<Rightarrow> nat" where
  "countQuery conds db = length (filter (selects conds) db)"

text \<open>\<^verbatim>\<open>SELECT * FROM feedback WHERE ... ORDER BY created_at DESC LIMIT ? OFFSET ?\<close>\<close>

definition dataQuery ::
    "(stored list \<Rightarrow> stored list) \<Rightarrow> condition list \<Rightarrow> nat \<Rightarrow> nat \<Rightarrow> stored list \<Rightarrow> stored list" where
  "dataQuery order_by conds n off db =
     take n (drop off (order_by (filter (selects conds) db)))"

record pagination =
  page :: int
  limit :: int
  total :: int
  totalPages :: int
  hasNext :: bool
  hasPrev :: bool

record listing =
  feedback :: "json Feedback list"
  pagination :: pagination

datatype failure = Failed_to_fetch | Not_modelled

text \<open>The response row: the stored row with its themes decoded. \<^verbatim>\<open>JSON.parse\<close>
  throws on a row whose themes are no JSON text, and the handler answers 500.\<close>

definition decoded :: "stored \<Rightarrow> json Feedback option" where
  "decoded r =
     (case themes r of
        None \<Rightarrow> None
      | Some v \<Rightarrow>
          Some \<lparr>sentiment = sentiment r, category = category r, priority = priority r,
                themes = v, row_id = row_id r, source = source r, content = content r,
                created_at = created_at r\<rparr>)"

text \<open>The decoded row of a row whose themes are JSON text (\<^verbatim>\<open>null\<close> stands in where
  they are not; the proofs use it on decodable rows only).\<close>

definition decode :: "stored \<Rightarrow> json Feedback" where
  "decode r =
     \<lparr>sentiment = sentiment r, category = category r, priority = priority r,
      themes = (case themes r of None \<Rightarrow> JNull | Some v \<Rightarrow> v), row_id = row_id r,
      source = source r, content = content r, created_at = created_at r\<rparr>"

fun decode_all :: "stored list \<Rightarrow> json Feedback list option" where
  "decode_all [] = Some []"
| "decode_all (r # rs) =
     (case decoded r of
        None \<Rightarrow> None
      | Some d \<Rightarrow> (case decode_all rs of None \<Rightarrow> None | Some ds \<Rightarrow> Some (d # ds)))"

text \<open>\<^verbatim>\<open>Math.ceil(total / limit)\<close>: the ceiling of the double quotient.\<close>

definition Math_ceil_div :: "int \<Rightarrow> int \<Rightarrow> int" where
  "Math_ceil_div a b = \<lceil>js_div (of_int a) (of_int b)\<rceil>"

text \<open>What the store does with a \<^verbatim>\<open>LIMIT\<close> or an \<^verbatim>\<open>OFFSET\<close> that is \<^verbatim>\<open>NaN\<close> is not
  modelled.\<close>

definition handleGetFeedback ::
    "(int \<Rightarrow> string) \<Rightarrow> (stored list \<Rightarrow> stored list) \<Rightarrow> int \<Rightarrow> stored list \<Rightarrow> searchParams
       \<Rightarrow> failure + listing" where
  "handleGetFeedback toISOString order_by now db q =
     (let conds = whereClause toISOString now q
      in case (effective_page q, effective_limit q) of
           (Some p, Some l) \<Rightarrow>
             (let off = js_offset p l;
                  tot = int (countQuery conds db);
                  tp = Math_ceil_div tot l
              in case decode_all (dataQuery order_by conds (nat l) (nat off) db) of
                   None \<Rightarrow> Inl Failed_to_fetch
                 | Some rows \<Rightarrow>
                     Inr \<lparr>feedback = rows,
                          pagination =
                            \<lparr>page = p, limit = l, total = tot, totalPages = tp,
                             hasNext = (p < tp), hasPrev = (p > 1)\<rparr>\<rparr>)
         | _ \<Rightarrow> Inl Not_modelled)"


text \<open>A store and requests for examples.\<close>

definition row :: "int \<Rightarrow> string \<Rightarrow> int \<Rightarrow> json option \<Rightarrow> string \<Rightarrow> stored" where
  "row i s p th t =
     \<lparr>sentiment = s, category = ''bug'', priority = p, themes = th, row_id = i,
      source = ''github'', content = ''slow'', created_at = t\<rparr>"

definition no_params :: searchParams where
  "no_params =
     \<lparr>source_param = None, sentiment_param = None, category_param = None,
      priority_param = None, dateRange_param = None, page_param = None,
      limit_param = None\<rparr>"



subsection \<open>Plain objects used as maps\<close>

text \<open>
  The handlers count in object literals (\<^verbatim>\<open>Record<string, ...>\<close>). The model of such an
  object is the list of its own properties in the order of their creation.
  \<^verbatim>\<open>Object.entries\<close> lists the keys that are array indices first (canonical numerals up
  to \<open>2^32 - 2\<close>), in ascending numeric order, and then the other keys in the order of
  their creation.
\<close>

type_synonym 'v object = "(string \<times> 'v) list"

definition array_index :: "string \<Rightarrow> int option" where
  "array_index k =
     (if k \<noteq> [] \<and> list_all (is_digit 10) k \<and> (k = ''0'' \<or> hd k \<noteq> CHR ''0'')
         \<and> digits_value 10 k \<le> 4294967294
      then Some (digits_value 10 k) else None)"

definition index_rank :: "string \<times> 'v \<Rightarrow> int" where
  "index_rank e = (case array_index (fst e) of None \<Rightarrow> 0 | Some n \<Rightarrow> n)"

definition Object_entries :: "'v object \<Rightarrow> (string \<times> 'v) list" where
  "Object_entries own =
     sort_key index_rank (filter (\<lambda>e. array_index (fst e) \<noteq> None) own)
     @ filter (\<lambda>e. array_index (fst e) = None) own"

text \<open>
  A read \<^verbatim>\<open>obj[k]\<close> of a key the object does not own goes to \<^verbatim>\<open>Object.prototype\<close>.
  A theme is lowercase, and two names of the prototype are: \<^verbatim>\<open>constructor\<close> (the
  function \<^verbatim>\<open>Object\<close>) and \<^verbatim>\<open>__proto__\<close> (the prototype itself). Both are truthy.
\<close>

definition inherited :: "string \<Rightarrow> bool" where
  "inherited k = (k = ''constructor'' \<or> k = ''__proto__'')"

subsection \<open>The Theme Index: counting themes\<close>

text \<open>
  \<^verbatim>\<open>themeCounts[t] = (themeCounts[t] || 0) + 1\<close> for a theme \<open>t\<close> that is not empty.
  For the key \<^verbatim>\<open>__proto__\<close> the sum is a string and the assignment of a string to
  \<^verbatim>\<open>__proto__\<close> does nothing. For the key \<^verbatim>\<open>constructor\<close> the sum is a string too
  (the source text of \<^verbatim>\<open>Object\<close> followed by 1) and is stored: from then on a count
  of the object is no number, and the model stops there with \<open>None\<close>; what sorting
  and dividing do with that string is not modelled.
\<close>

fun increment :: "string \<Rightarrow> nat object \<Rightarrow> nat object" where
  "increment k [] = [(k, 1)]"
| "increment k ((k', n) # rest) =
     (if k' = k then (k', n + 1) # rest else (k', n) # increment k rest)"

definition count_theme :: "string \<Rightarrow> nat object option \<Rightarrow> nat object option" where
  "count_theme t acc =
     (if t = [] then acc
      else if t = ''__proto__'' then acc
      else if t = ''constructor'' then None
      else map_option (increment t) acc)"

text \<open>\<^verbatim>\<open>themes.forEach(...)\<close> inside the \<^verbatim>\<open>try\<close> of one row: an element that is no
  string has no \<^verbatim>\<open>toLowerCase\<close>, the call throws, and the \<^verbatim>\<open>catch\<close> ends the row;
  what the row counted before stays counted.\<close>

fun count_themes :: "json list \<Rightarrow> nat object option \<Rightarrow> nat object option" where
  "count_themes [] acc = acc"
| "count_themes (JStr s # ts) acc = count_themes ts (count_theme (trim (toLowerCase s)) acc)"
| "count_themes (v # ts) acc = acc"

definition count_row :: "nat object option \<Rightarrow> stored \<Rightarrow> nat object option" where
  "count_row acc f =
     (case themes f of Some (JArr ts) \<Rightarrow> count_themes ts acc | _ \<Rightarrow> acc)"

text \<open>The loop of \<open>handleGetInsights\<close> over \<^verbatim>\<open>allFeedback.results\<close>, and the same loop
  (\<^verbatim>\<open>allThemeCounts\<close>) of \<open>handleGetAIInsights\<close> over \<^verbatim>\<open>feedback\<close>.\<close>

definition themeCounts :: "stored list \<Rightarrow> nat object option" where
  "themeCounts rows = foldl count_row (Some []) rows"

text \<open>\<^verbatim>\<open>.sort((a, b) => b[1] - a[1])\<close>: a stable sort, the larger count first.\<close>

definition sort_by_count_desc :: "(string \<times> nat) list \<Rightarrow> (string \<times> nat) list" where
  "sort_by_count_desc es = sort_key (\<lambda>e. - int (snd e)) es"

record ThemeCount =
  theme :: string
  count :: nat

definition topThemes :: "stored list \<Rightarrow> ThemeCount list option" where
  "topThemes rows =
     map_option
       (\<lambda>cs. map (\<lambda>e. \<lparr>theme = fst e, count = snd e\<rparr>)
               (take 5 (sort_by_count_desc (Object_entries cs))))
       (themeCounts rows)"

subsection \<open>The insight engine: \<^verbatim>\<open>handleGetAIInsights\<close>\<close>

text \<open>
  The handler reads \<^verbatim>\<open>feedback\<close>, the rows as the store orders them by \<^verbatim>\<open>created_at\<close>
  descending, answers the empty-state shape when there is none, and otherwise the values
  below, each a function of \<^verbatim>\<open>feedback\<close>.
\<close>

text \<open>
  1. The most urgent issue. \<^verbatim>\<open>negativeThemePriorities[t]\<close> holds the sum of the
  priorities and the number of occurrences. For an inherited key the test
  \<^verbatim>\<open>!negativeThemePriorities[t]\<close> is false, no property is created, and the two
  updates go to the inherited object: the theme leaves no entry.
\<close>

fun add_priority :: "string \<Rightarrow> int \<Rightarrow> (int \<times> nat) object \<Rightarrow> (int \<times> nat) object" where
  "add_priority k p [] = [(k, (0 + p, 0 + 1))]"
| "add_priority k p ((k', (tot, n)) # rest) =
     (if k' = k then (k', (tot + p, n + 1)) # rest
      else (k', (tot, n)) # add_priority k p rest)"

definition note_theme :: "int \<Rightarrow> string \<Rightarrow> (int \<times> nat) object \<Rightarrow> (int \<times> nat) object" where
  "note_theme p t acc = (if t = [] \<or> inherited t then acc else add_priority t p acc)"

fun note_themes :: "int \<Rightarrow> json list \<Rightarrow> (int \<times> nat) object \<Rightarrow> (int \<times> nat) object" where
  "note_themes p [] acc = acc"
| "note_themes p (JStr s # ts) acc = note_themes p ts (note_theme p (trim (toLowerCase s)) acc)"
| "note_themes p (v # ts) acc = acc"

definition note_row :: "(int \<times> nat) object \<Rightarrow> stored \<Rightarrow> (int \<times> nat) object" where
  "note_row acc f =
     (if sentiment f = ''negative''
      then (case themes f of Some (JArr ts) \<Rightarrow> note_themes (priority f) ts acc | _ \<Rightarrow> acc)
      else acc)"

definition negativeThemePriorities :: "stored list \<Rightarrow> (int \<times> nat) object" where
  "negativeThemePriorities fb = foldl note_row [] fb"

record UrgentIssue = ThemeCount +
  avgPriority :: rat

text \<open>\<^verbatim>\<open>Math.round(avg * 10) / 10\<close>\<close>

definition round_1_decimal :: "rat \<Rightarrow> rat" where
  "round_1_decimal avg = js_div (of_int (Math_round (js_mul avg 10))) 10"

text \<open>One step of the loop over \<^verbatim>\<open>Object.entries(negativeThemePriorities)\<close>; the state
  is \<^verbatim>\<open>highestAvgPriority\<close> and \<^verbatim>\<open>mostUrgentIssue\<close>.\<close>

definition more_urgent :: "rat \<times> UrgentIssue option \<Rightarrow> string \<times> int \<times> nat \<Rightarrow> rat \<times> UrgentIssue option" where
  "more_urgent st e =
     (let highestAvgPriority = fst st;
          t = fst e; tot = fst (snd e); n = snd (snd e);
          avg = js_div (of_int tot) (of_nat n)
      in if avg > highestAvgPriority
            \<or> (avg = highestAvgPriority
                \<and> n > (case snd st of None \<Rightarrow> 0 | Some issue \<Rightarrow> count issue))
         then (avg, Some \<lparr>theme = t, count = n, avgPriority = round_1_decimal avg\<rparr>)
         else st)"

definition mostUrgentIssue :: "stored list \<Rightarrow> UrgentIssue option" where
  "mostUrgentIssue fb =
     snd (foldl more_urgent (0, None) (Object_entries (negativeThemePriorities fb)))"

text \<open>3. The sentiment trend. \<^verbatim>\<open>midpoint || 1\<close> is 1 when the midpoint is 0; the literal
  \<^verbatim>\<open>0.1\<close> is the double nearest to one tenth.\<close>

definition calcPositiveRatio :: "stored list \<Rightarrow> rat" where
  "calcPositiveRatio items =
     (if length items = 0 then 0
      else (let positive = length (filter (\<lambda>f. sentiment f = ''positive'') items);
                negative = length (filter (\<lambda>f. sentiment f = ''negative'') items)
            in if length items > 0
               then js_div (of_int (int positive - int negative)) (of_nat (length items))
               else 0))"

record SentimentTrend =
  trend :: string
  description :: string
  recentPositive :: nat
  recentNegative :: nat

definition sentimentTrend :: "stored list \<Rightarrow> SentimentTrend" where
  "sentimentTrend fb =
     (let midpoint = length fb div 2;
          recentHalf = take (if midpoint = 0 then 1 else midpoint) fb;
          olderHalf = drop (if midpoint = 0 then 1 else midpoint) fb;
          recentRatio = calcPositiveRatio recentHalf;
          olderRatio = calcPositiveRatio olderHalf;
          diff = js_sub recentRatio olderRatio;
          pos = length (filter (\<lambda>f. sentiment f = ''positive'') recentHalf);
          neg = length (filter (\<lambda>f. sentiment f = ''negative'') recentHalf)
      in if diff > fl (1 / 10)
         then \<lparr>trend = ''improving'',
               description = ''Sentiment is getting more positive recently'',
               recentPositive = pos, recentNegative = neg\<rparr>
         else if diff < - fl (1 / 10)
         then \<lparr>trend = ''declining'',
               description = ''More negative feedback in recent entries'',
               recentPositive = pos, recentNegative = neg\<rparr>
         else \<lparr>trend = ''stable'',
               description = ''Sentiment has remained consistent'',
               recentPositive = pos, recentNegative = neg\<rparr>)"

text \<open>4. The theme distribution. \<^verbatim>\<open>Math.round((count / totalThemeMentions) * 100)\<close>:
  the quotient is rounded to a double, the product is rounded to a double, and
  \<^verbatim>\<open>Math.round\<close> rounds that.\<close>

record ThemeShare = ThemeCount +
  percentage :: int

definition percentage_of :: "nat \<Rightarrow> nat \<Rightarrow> int" where
  "percentage_of c totalThemeMentions =
     Math_round (js_mul (js_div (of_nat c) (of_nat totalThemeMentions)) 100)"

definition themeDistribution :: "stored list \<Rightarrow> ThemeShare list option" where
  "themeDistribution fb =
     map_option
       (\<lambda>cs. let totalThemeMentions = sum_list (map snd (Object_entries cs))
             in map (\<lambda>e. \<lparr>theme = fst e, count = snd e,
                          percentage = percentage_of (snd e) totalThemeMentions\<rparr>)
                  (take 5 (sort_by_count_desc (Object_entries cs))))
       (themeCounts fb)"

subsection \<open>The Theme Index, in the words of the specification\<close>

text \<open>
  The themes one row contributes: its stored themes, when they are a list, each trimmed
  and lowercased, read up to the first element that is no string, without the empty
  ones. A theme that occurs twice in the list occurs twice here.
\<close>

fun read_themes :: "json list \<Rightarrow> string list" where
  "read_themes [] = []"
| "read_themes (JStr s # ts) = trim (toLowerCase s) # read_themes ts"
| "read_themes (v # ts) = []"

definition row_mentions :: "stored \<Rightarrow> string list" where
  "row_mentions f =
     (case themes f of
        Some (JArr ts) \<Rightarrow> filter (\<lambda>t. t \<noteq> []) (read_themes ts)
      | _ \<Rightarrow> [])"

definition mentions :: "stored list \<Rightarrow> string list" where
  "mentions rows = concat (map row_mentions rows)"

text \<open>The themes in the order in which the scan first meets them, each with the number
  of its occurrences.\<close>

definition first_seen :: "string list \<Rightarrow> string list" where
  "first_seen ms = rev (remdups (rev ms))"

definition counted :: "string list \<Rightarrow> nat object" where
  "counted ms = map (\<lambda>t. (t, count_list ms t)) (first_seen ms)"

text \<open>The sum of the counts of all themes.\<close>

definition totalMentions :: "string list \<Rightarrow> nat" where
  "totalMentions ms = sum_list (map snd (counted ms))"

definition as_ThemeCount :: "string \<times> nat \<Rightarrow> ThemeCount" where
  "as_ThemeCount e = \<lparr>theme = fst e, count = snd e\<rparr>"

text \<open>Rows for examples: one row of the given sentiment and priority with the given
  themes.\<close>

definition themed :: "string list \<Rightarrow> json option" where
  "themed ts = Some (JArr (map JStr ts))"

definition rows_404 :: "stored list" where
  "rows_404 =
     [row 1 ''negative'' 4 (themed [''api'']) ''2024-01-01'',
      row 2 ''negative'' 3 (themed [''500'']) ''2024-01-02'',
      row 3 ''negative'' 3 (themed [''404'']) ''2024-01-03'',
      row 4 ''neutral'' 2 (themed [''UI'', ''ui '']) ''2024-01-04'']"


definition rows_ab :: "stored list" where
  "rows_ab = [row 1 ''neutral'' 3 (themed [''a'', ''a'', ''b'']) ''2024-01-01'']"

definition rows_six :: "stored list" where
  "rows_six =
     [row 1 ''neutral'' 3 (themed [''a'', ''b'', ''c'']) ''2024-01-02'',
      row 2 ''neutral'' 3 (themed [''d'', ''e'', ''f'']) ''2024-01-01'']"

text \<open>Forty rows of one theme each: 23 times a, 17 times b.\<close>

definition rows_40 :: "stored list" where
  "rows_40 =
     map (\<lambda>i. row i ''neutral'' 3 (themed [''a'']) ''2024-01-02'') [1..23]
     @ map (\<lambda>i. row i ''neutral'' 3 (themed [''b'']) ''2024-01-01'') [24..40]"

subsection \<open>The sentiment trend, in the words of the specification\<close>

text \<open>The recent half is the first half of the rows, or the single row when there is
  one; the older half is the rest. The ratio of a half is the number of positive rows
  minus the number of negative rows, divided by its size, and 0 for an empty half; the
  trend is improving when the ratio of the recent half exceeds that of the older half by
  more than 0.1, declining when it falls short of it by more than 0.1, and stable
  otherwise. These are the words of the specification, read in exact arithmetic.\<close>

definition recent_half :: "stored list \<Rightarrow> stored list" where
  "recent_half fb = (if length fb = 1 then fb else take (length fb div 2) fb)"

definition older_half :: "stored list \<Rightarrow> stored list" where
  "older_half fb = drop (length (recent_half fb)) fb"

definition count_sentiment :: "string \<Rightarrow> stored list \<Rightarrow> nat" where
  "count_sentiment s xs = length (filter (\<lambda>f. sentiment f = s) xs)"

definition exact_ratio :: "stored list \<Rightarrow> rat" where
  "exact_ratio xs =
     (if xs = [] then 0
      else (of_int (int (count_sentiment ''positive'' xs)
                    - int (count_sentiment ''negative'' xs)))
           / of_nat (length xs))"

definition exact_diff :: "stored list \<Rightarrow> rat" where
  "exact_diff fb = exact_ratio (recent_half fb) - exact_ratio (older_half fb)"

definition exact_trend :: "stored list \<Rightarrow> string" where
  "exact_trend fb =
     (if exact_diff fb > 1 / 10 then ''improving''
      else if exact_diff fb < - (1 / 10) then ''declining''
      else ''stable'')"

text \<open>The same in the arithmetic of the code: the quotient and the difference are
  rounded to doubles, and 0.1 is the double nearest to one tenth.\<close>

definition double_diff :: "stored list \<Rightarrow> rat" where
  "double_diff fb = js_sub (fl (exact_ratio (recent_half fb))) (fl (exact_ratio (older_half fb)))"

definition double_trend :: "stored list \<Rightarrow> string" where
  "double_trend fb =
     (if double_diff fb > fl (1 / 10) then ''improving''
      else if double_diff fb < - fl (1 / 10) then ''declining''
      else ''stable'')"

definition rows_ppnn :: "stored list" where
  "rows_ppnn =
     [row 4 ''positive'' 1 (themed []) ''2024-01-04'',
      row 3 ''positive'' 1 (themed []) ''2024-01-03'',
      row 2 ''negative'' 4 (themed []) ''2024-01-02'',
      row 1 ''negative'' 4 (themed []) ''2024-01-01'']"

text \<open>Twenty rows, the newest first: four of the ten recent ones are positive, three of
  the ten older ones, and the others are neutral.\<close>

definition rows_20 :: "stored list" where
  "rows_20 =
     map (\<lambda>i. row i ''positive'' 1 (themed []) ''2024-01-04'') [17..20]
     @ map (\<lambda>i. row i ''neutral'' 1 (themed []) ''2024-01-03'') [11..16]
     @ map (\<lambda>i. row i ''positive'' 1 (themed []) ''2024-01-02'') [8..10]
     @ map (\<lambda>i. row i ''neutral'' 1 (themed []) ''2024-01-01'') [1..7]"

subsection \<open>The most urgent issue, in the words of the specification\<close>

text \<open>The themes of the negative rows, each with the priority of its row; then, for a
  theme, the number of its occurrences, the sum of their priorities, and the average
  (a double).\<close>

definition negative_mentions :: "stored list \<Rightarrow> (string \<times> int) list" where
  "negative_mentions fb =
     concat (map (\<lambda>f. if sentiment f = ''negative''
                        then map (\<lambda>t. (t, priority f)) (row_mentions f) else []) fb)"

definition occurrences :: "(string \<times> int) list \<Rightarrow> string \<Rightarrow> nat" where
  "occurrences nm t = length (filter (\<lambda>e. fst e = t) nm)"

definition priority_sum :: "(string \<times> int) list \<Rightarrow> string \<Rightarrow> int" where
  "priority_sum nm t = sum_list (map snd (filter (\<lambda>e. fst e = t) nm))"

definition average :: "(string \<times> int) list \<Rightarrow> string \<Rightarrow> rat" where
  "average nm t = js_div (of_int (priority_sum nm t)) (of_nat (occurrences nm t))"

definition rows_constructor :: "stored list" where
  "rows_constructor =
     [row 2 ''negative'' 5 (themed [''constructor'']) ''2024-01-02'',
      row 1 ''negative'' 1 (themed [''ui'']) ''2024-01-01'']"

definition rows_urgent :: "stored list" where
  "rows_urgent =
     [row 4 ''negative'' 5 (themed [''api'', ''ui'']) ''2024-01-04'',
      row 3 ''negative'' 2 (themed [''UI '']) ''2024-01-03'',
      row 2 ''positive'' 5 (themed [''pricing'']) ''2024-01-02'',
      row 1 ''negative'' 5 (themed [''api'', ''docs'']) ''2024-01-01'']"

text \<open>The average of one entry of \<^verbatim>\<open>negativeThemePriorities\<close>, and the issue the loop
  makes of it.\<close>

definition entry_average :: "string \<times> int \<times> nat \<Rightarrow> rat" where
  "entry_average e = js_div (of_int (fst (snd e))) (of_nat (snd (snd e)))"

definition entry_issue :: "string \<times> int \<times> nat \<Rightarrow> UrgentIssue" where
  "entry_issue e =
     \<lparr>theme = fst e, count = snd (snd e), avgPriority = round_1_decimal (entry_average e)\<rparr>"

section \<open>Properties\<close>

subsection \<open>Strings\<close>

lemma of_char_char_of_lt: "0 \<le> n \<Longrightarrow> n < 256 \<Longrightarrow> (of_char (char_of n :: char) :: int) = n"
  by simp

lemma toLowerChar_idem: "toLowerChar (toLowerChar c) = toLowerChar c"
  unfolding toLowerChar_def Let_def
  by (auto simp: of_char_char_of_lt)

lemma set_trim: "set (trim s) \<subseteq> set s"
  unfolding trim_def by (auto dest!: set_dropWhileD)

lemma toLowerCase_trim_toLowerCase:
  "toLowerCase (trim (toLowerCase s)) = trim (toLowerCase s)"
proof -
  have "\<forall>c \<in> set (trim (toLowerCase s)). toLowerChar c = c"
    using set_trim[of "toLowerCase s"] by (auto simp: toLowerCase_def toLowerChar_idem)
  then show ?thesis
    unfolding toLowerCase_def[of "trim _"] by (simp add: map_idI)
qed

lemma dropWhile_id_hd: "xs \<noteq> [] \<Longrightarrow> \<not> P (hd xs) \<Longrightarrow> dropWhile P xs = xs"
  by (cases xs) auto

lemma trim_idem: "trim (trim s) = trim s"
proof -
  define a where "a = dropWhile isWhiteSpace s"
  define b where "b = dropWhile isWhiteSpace (rev a)"
  have t: "trim s = rev b" by (simp add: trim_def a_def b_def)
  show ?thesis
  proof (cases "b = []")
    case True
    then have "trim s = []" by (simp add: t)
    moreover have "trim [] = []" by (simp add: trim_def)
    ultimately show ?thesis by simp
  next
    case False
    then have hb: "\<not> isWhiteSpace (hd b)" unfolding b_def by (simp add: hd_dropWhile)
    from False have ane: "a \<noteq> []" unfolding b_def by auto
    then have ha: "\<not> isWhiteSpace (hd a)" unfolding a_def by (simp add: hd_dropWhile)
    obtain us where us: "rev a = us @ b"
      unfolding b_def by (metis takeWhile_dropWhile_id)
    have "last b = last (rev a)" using us False by simp
    also have "\<dots> = hd a" using ane by (simp add: last_rev)
    finally have "hd (rev b) = hd a" using False by (simp add: hd_rev)
    then have 1: "dropWhile isWhiteSpace (rev b) = rev b"
      using ha False by (simp add: dropWhile_id_hd)
    have 2: "dropWhile isWhiteSpace b = b" using hb False by (simp add: dropWhile_id_hd)
    show ?thesis by (simp add: t trim_def[of "rev b"] 1 2)
  qed
qed

subsection \<open>Rounding to a double\<close>

lemma bits_bounds:
  "0 < n \<Longrightarrow> 1 \<le> bits n \<and> 2 ^ nat (bits n - 1) \<le> n \<and> n < 2 ^ nat (bits n)"
proof (induction n rule: bits.induct)
  case (1 n)
  show ?case
  proof (cases "n div 2 = 0")
    case True
    with "1.prems" have "n = 1" by linarith
    then show ?thesis by (simp add: bits.simps[of 1] bits.simps[of 0])
  next
    case False
    with "1.prems" have h: "0 < n div 2" by linarith
    from "1.IH"[OF _ h] "1.prems"
    have ih: "1 \<le> bits (n div 2)" "2 ^ nat (bits (n div 2) - 1) \<le> n div 2"
      "n div 2 < 2 ^ nat (bits (n div 2))" by auto
    define k where "k = nat (bits (n div 2) - 1)"
    have b: "bits n = 1 + bits (n div 2)" using "1.prems" by (simp add: bits.simps[of n])
    have k1: "nat (bits n - 1) = Suc k" "nat (bits n) = Suc (Suc k)" "nat (bits (n div 2)) = Suc k"
      using ih(1) by (auto simp: b k_def)
    have lo: "(2::int) ^ k \<le> n div 2" using ih(2) by (simp add: k_def)
    have hi: "n div 2 < (2::int) ^ Suc k" using ih(3) by (simp add: k1)
    have "2 * (n div 2) \<le> n" "n < 2 * (n div 2) + 2" by presburger+
    with lo hi have "(2::int) ^ Suc k \<le> n" "n < (2::int) ^ Suc (Suc k)" by simp_all
    then have "2 ^ nat (bits n - 1) \<le> n" "n < 2 ^ nat (bits n)" by (simp_all only: k1)
    moreover have "1 \<le> bits n" using ih(1) by (simp add: b)
    ultimately show ?thesis by blast
  qed
qed


lemma binade_le:
  assumes "0 < x"
  shows "2 powi (binade x) \<le> x"
proof -
  obtain a b where q: "quotient_of x = (a, b)" by (cases "quotient_of x")
  then have b: "0 < b" and x: "x = of_int a / of_int b"
    using quotient_of_denom_pos quotient_of_div by blast+
  have a: "0 < a" using assms b x by (simp add: zero_less_divide_iff)
  define e0 where "e0 = bits a - bits b"
  have bin: "binade x = (if 2 powi e0 \<le> x then e0 else e0 - 1)"
    using assms q by (simp add: binade_def e0_def abs_of_pos)
  show ?thesis
  proof (cases "2 powi e0 \<le> x")
    case True
    then show ?thesis by (simp add: bin)
  next
    case False
    from bits_bounds[OF a] have ba: "1 \<le> bits a" "2 ^ nat (bits a - 1) \<le> a" by auto
    from bits_bounds[OF b] have bb: "1 \<le> bits b" "b < 2 ^ nat (bits b)" by auto
    have na: "(2::rat) powi (bits a - 1) = 2 ^ nat (bits a - 1)"
      using ba(1) by (simp add: power_int_def)
    have nb: "(2::rat) powi (bits b) = 2 ^ nat (bits b)"
      using bb(1) by (simp add: power_int_def)
    have la: "(2::rat) powi (bits a - 1) \<le> of_int a"
      unfolding na using ba(2) by (metis of_int_le_iff of_int_numeral of_int_power)
    have lb: "rat_of_int b \<le> 2 powi (bits b)"
      unfolding nb using bb(2) by (metis less_imp_le of_int_le_iff of_int_numeral of_int_power)
    have "e0 - 1 = (bits a - 1) - bits b" by (simp add: e0_def)
    then have "(2::rat) powi (e0 - 1) = 2 powi (bits a - 1) / 2 powi (bits b)"
      by (simp only: power_int_diff[of "2::rat" "bits a - 1" "bits b", simplified])
    also have "\<dots> \<le> of_int a / of_int b"
      using la lb a b by (intro frac_le) simp_all
    finally have "2 powi (e0 - 1) \<le> x" unfolding x .
    moreover have "binade x = e0 - 1" using False by (simp add: bin)
    ultimately show ?thesis by simp
  qed
qed

lemma round_half_even_ge_floor: "\<lfloor>m\<rfloor> \<le> round_half_even m"
  by (simp add: round_half_even_def Let_def)

lemma fl_pos:
  assumes "0 < x"
  shows "0 < fl x"
proof -
  define u :: rat where "u = 2 powi (binade x - 52)"
  have u: "0 < u" by (simp add: u_def)
  have "u \<le> 2 powi (binade x)"
    unfolding u_def by (rule power_int_increasing) simp_all
  also have "\<dots> \<le> x" by (rule binade_le[OF assms])
  finally have "1 \<le> x / u" using u by (simp add: pos_le_divide_eq)
  then have "1 \<le> \<lfloor>x / u\<rfloor>" by (simp add: le_floor_iff)
  then have "1 \<le> round_half_even (x / u)" using round_half_even_ge_floor[of "x / u"] by linarith
  then have "0 < rat_of_int (round_half_even (x / u))" by simp
  then show ?thesis using assms u by (simp add: fl_def Let_def u_def[symmetric])
qed

lemma binade_abs: "binade \<bar>x\<bar> = binade x"
  by (simp add: binade_def)

lemma binade_abs_le: "x \<noteq> 0 \<Longrightarrow> 2 powi (binade x) \<le> \<bar>x\<bar>"
  using binade_le[of "\<bar>x\<bar>"] by (simp add: binade_abs)

lemma round_half_even_near: "\<bar>of_int (round_half_even m) - m\<bar> \<le> 1 / 2"
proof -
  have "of_int \<lfloor>m\<rfloor> \<le> m" "m < of_int \<lfloor>m\<rfloor> + 1" by linarith+
  then show ?thesis
    by (auto simp: round_half_even_def Let_def abs_le_iff)
qed

lemma round_half_even_int [simp]: "round_half_even (of_int z) = z"
  by (simp add: round_half_even_def)

lemma fl_error: "\<bar>fl x - x\<bar> \<le> \<bar>x\<bar> / 2 ^ 53"
proof (cases "x = 0")
  case True
  then show ?thesis by (simp add: fl_def)
next
  case False
  define u :: rat where "u = 2 powi (binade x - 52)"
  have u: "0 < u" by (simp add: u_def)
  have "u = 2 powi (binade x) / 2 ^ 52"
    unfolding u_def by (simp add: power_int_diff)
  also have "\<dots> \<le> \<bar>x\<bar> / 2 ^ 52"
    using binade_abs_le[OF False] by (simp add: divide_right_mono)
  finally have ule: "u \<le> \<bar>x\<bar> / 2 ^ 52" .
  have "fl x - x = (of_int (round_half_even (x / u)) - x / u) * u"
    using u False by (simp add: fl_def Let_def u_def[symmetric] algebra_simps)
  then have "\<bar>fl x - x\<bar> = \<bar>of_int (round_half_even (x / u)) - x / u\<bar> * u"
    using u by (simp add: abs_mult)
  also have "\<dots> \<le> (1 / 2) * u"
    using round_half_even_near[of "x / u"] u by (intro mult_right_mono) simp_all
  also have "\<dots> \<le> (1 / 2) * (\<bar>x\<bar> / 2 ^ 52)" using ule by simp
  finally show ?thesis by simp
qed




subsection \<open>The classifier gateway\<close>

lemma Math_round_examples: "Math_round 0 = 0" "Math_round (- 1) = - 1"
  by code_simp+

lemma sanitize_priority_numeric:
  "sanitize_priority env (Some (JNum r)) =
     Some (if Math_round r = 0 then 3 else min 5 (max 1 (Math_round r)))"
  by (simp add: sanitize_priority_def or_3_def)

lemma sanitize_priority_range:
  "sanitize_priority env v = Some p \<Longrightarrow> 1 \<le> p \<and> p \<le> 5"
  by (auto simp: sanitize_priority_def)

lemma those_map_Some:
  "those (map f xs) = Some ys \<Longrightarrow>
     length ys = length xs \<and> (\<forall>y \<in> set ys. \<exists>x \<in> set xs. f x = Some y)"
proof (induction xs arbitrary: ys)
  case Nil
  then show ?case by simp
next
  case (Cons x xs)
  from Cons.prems obtain y zs where y: "f x = Some y" and zs: "those (map f xs) = Some zs"
    and ys: "ys = y # zs" by (auto split: option.splits)
  from Cons.IH[OF zs] y ys show ?case by auto
qed

lemma sanitize_themes_shape:
  assumes "sanitize_themes env v = Some ts"
  shows "length ts \<le> 5 \<and> list_all (\<lambda>t. trim t = t \<and> toLowerCase t = t) ts"
proof (cases "\<exists>xs. v = Some (JArr xs)")
  case True
  then obtain xs where v: "v = Some (JArr xs)" by blast
  with assms have
    "those (map (\<lambda>t. map_option (\<lambda>s. trim (toLowerCase s)) (String_js env t)) (take 5 xs)) = Some ts"
    by (simp add: sanitize_themes_def)
  from those_map_Some[OF this] show ?thesis
    by (auto simp: list_all_iff trim_idem toLowerCase_trim_toLowerCase)
next
  case False
  with assms have "ts = []"
    by (auto simp: sanitize_themes_def split: option.splits json.splits)
  then show ?thesis by simp
qed

text \<open>
  C5. When the classifier call fails, or its response text holds no span from an opening
  to a closing brace, or \<^verbatim>\<open>JSON.parse\<close> throws on that span, \<open>analyzeFeedback\<close> returns
  the default analysis: neutral, complaint, priority 3, no themes. It returns a value in
  every case (the function is total), so no error leaves it.
\<close>

theorem analyzeFeedback_fallback:
  assumes "ai c = None
    \<or> (\<exists>txt. ai c = Some txt \<and>
          (jsonMatch txt = None
           \<or> (\<exists>m. jsonMatch txt = Some m \<and> JSON_parse env m = None)))"
  shows "analyzeFeedback env ai c = default_analysis"
  using assms by (auto simp: analyzeFeedback_def)

theorem analyzeFeedback_fallback_witness:
  "analyzeFeedback (env_decoding JNull) (\<lambda>c. Some ''I cannot answer that'') ''slow'' =
     \<lparr>sentiment = ''neutral'', category = ''complaint'', priority = 3, themes = []\<rparr>
   \<and> analyzeFeedback (env_decoding JNull) (\<lambda>c. None) ''slow'' = default_analysis"
  using analyzeFeedback_fallback[of "\<lambda>c. Some ''I cannot answer that''" "''slow''" "env_decoding JNull"]
    analyzeFeedback_fallback[of "\<lambda>c. None" "''slow''" "env_decoding JNull"]
  by (simp add: jsonMatch_def default_analysis_def)

text \<open>
  C6, at the value the code misses. A parsed priority of 0 is numeric; rounded and
  clamped into [1,5] it is 1, and the gateway returns 3, because \<^verbatim>\<open>0 || 3\<close> is 3. The
  neighbouring value -1 is clamped to 1, as the claim says.
\<close>

theorem priority_zero_falls_back:
  \<open>priority (analyzeFeedback (env_decoding (JObj [(''priority'', JNum 0)]))
      (\<lambda>c. Some ''{"priority":0}'') ''slow'') = 3
   \<and> priority (analyzeFeedback (env_decoding (JObj [(''priority'', JNum (- 1))]))
      (\<lambda>c. Some ''{"priority":-1}'') ''slow'') = 1\<close>
  by (simp add: analyzeFeedback_def env_decoding_def jsonMatch_def sanitize_priority_def
      sanitize_themes_def or_3_def Math_round_examples)

text \<open>
  C9, as amended. Every analysis \<open>analyzeFeedback\<close> returns has at most 5 themes, and
  every theme in it is trimmed and lowercase; a theme may be the empty string.
\<close>

theorem analyzeFeedback_themes:
  "length (themes (analyzeFeedback env ai c)) \<le> 5
   \<and> list_all (\<lambda>t. trim t = t \<and> toLowerCase t = t) (themes (analyzeFeedback env ai c))"
  using sanitize_themes_shape[of env]
  by (auto simp: analyzeFeedback_def default_analysis_def split: option.splits json.splits)

text \<open>C9 as stated fails: a theme of white space only is returned as the empty string.\<close>

theorem empty_theme_counterexample:
  \<open>themes (analyzeFeedback (env_decoding (JObj [(''themes'', JArr [JStr '' ''])]))
      (\<lambda>c. Some ''{"themes":[" "]}'') ''slow'') = [[]]\<close>
  by (simp add: analyzeFeedback_def env_decoding_def jsonMatch_def sanitize_themes_def
      sanitize_priority_def trim_def toLowerCase_def toLowerChar_def isWhiteSpace_def)


text \<open>A theme that is an object with a property \<^verbatim>\<open>toString\<close> of its own: \<^verbatim>\<open>String(t)\<close>
  throws, and the \<^verbatim>\<open>catch\<close> returns the defaults, whatever the other properties
  are.\<close>

lemma own_toString_throws:
  "analyzeFeedback
     (env_decoding (JObj [(''sentiment'', JStr ''positive''),
                          (''themes'', JArr [JObj [(''toString'', JNum 1)]])]))
     (\<lambda>c. Some ''{}'') ''slow'' = default_analysis"
  by (simp add: analyzeFeedback_def env_decoding_def jsonMatch_def sanitize_themes_def
      sanitize_priority_def)
subsection \<open>The query service\<close>








lemma effective_page_range: "effective_page q = Some p \<Longrightarrow> 1 \<le> p"
  by (auto simp: effective_page_def Math_max_def)

lemma whereClause_page [simp]:
  "whereClause toISOString now (q\<lparr>page_param := v\<rparr>) = whereClause toISOString now q"
  by (simp add: whereClause_def)

lemma effective_limit_page [simp]:
  "effective_limit (q\<lparr>page_param := v\<rparr>) = effective_limit q"
  by (simp add: effective_limit_def)


lemma decode_all_map:
  "list_all (\<lambda>r. themes r \<noteq> None) rs \<Longrightarrow> decode_all rs = Some (map decode rs)"
  by (induction rs) (auto simp: decoded_def decode_def)

lemma list_all_take_drop: "list_all P xs \<Longrightarrow> list_all P (take n (drop m xs))"
  by (auto simp: list_all_iff dest: in_set_takeD in_set_dropD)

lemma set_insert_desc [simp]: "set (insert_desc r xs) = insert r (set xs)"
  by (induction xs) auto

lemma count_list_insert_desc [simp]:
  "count_list (insert_desc r xs) y = count_list (r # xs) y"
  by (induction xs) auto



lemma same_counts_same_set:
  assumes "\<forall>r. count_list xs r = count_list ys r"
  shows "set xs = set ys"
proof -
  have "r \<in> set xs \<longleftrightarrow> r \<in> set ys" for r
    using assms count_list_0_iff[of xs r] count_list_0_iff[of ys r] by metis
  then show ?thesis by blast
qed


lemma handleGetFeedback_ok:
  assumes "effective_page q = Some p" and "effective_limit q = Some l"
    and "decode_all (dataQuery order_by (whereClause toISOString now q) (nat l)
           (nat (js_offset p l)) db) = Some rows"
  shows "handleGetFeedback toISOString order_by now db q =
     Inr \<lparr>feedback = rows,
          pagination =
            \<lparr>page = p, limit = l,
             total = int (countQuery (whereClause toISOString now q) db),
             totalPages = Math_ceil_div (int (countQuery (whereClause toISOString now q) db)) l,
             hasNext = (p < Math_ceil_div (int (countQuery (whereClause toISOString now q) db)) l),
             hasPrev = (p > 1)\<rparr>\<rparr>"
  using assms by (simp add: handleGetFeedback_def Let_def)



lemma handleGetFeedback_pagination:
  assumes pg: "parseInt (or_default (page_param q) ''1'') = Some p0"
    and lm: "parseInt (or_default (limit_param q) ''10'') = Some l0"
    and stored: "list_all (\<lambda>r. themes r \<noteq> None) db"
    and store: "orders_by_created_at_desc order_by"
  shows "\<exists>r. handleGetFeedback toISOString order_by now db q = Inr r
     \<and> page (pagination r) = max 1 p0
     \<and> limit (pagination r) = min 100 (max 1 l0)
     \<and> feedback r = map decode
          (take (nat (limit (pagination r)))
            (drop (nat (js_offset (page (pagination r)) (limit (pagination r))))
              (order_by (filter (selects (whereClause toISOString now q)) db))))
     \<and> total (pagination r) = int (length (filter (selects (whereClause toISOString now q)) db))
     \<and> totalPages (pagination r) =
          Math_ceil_div (total (pagination r)) (limit (pagination r))
     \<and> hasNext (pagination r) = (page (pagination r) < totalPages (pagination r))
     \<and> hasPrev (pagination r) = (page (pagination r) > 1)"
proof -
  have ep: "effective_page q = Some (max 1 p0)"
    using pg by (simp add: effective_page_def Math_max_def)
  have el: "effective_limit q = Some (min 100 (max 1 l0))"
    using lm by (simp add: effective_limit_def Math_max_def Math_min_def)
  have "set (order_by (filter (selects (whereClause toISOString now q)) db))
      = set (filter (selects (whereClause toISOString now q)) db)"
    by (rule same_counts_same_set)
       (use store in \<open>simp add: orders_by_created_at_desc_def\<close>)
  then have ok: "list_all (\<lambda>r. themes r \<noteq> None)
      (order_by (filter (selects (whereClause toISOString now q)) db))"
    using stored by (auto simp: list_all_iff)
  have dec: "decode_all (dataQuery order_by (whereClause toISOString now q)
      (nat (min 100 (max 1 l0))) (nat (js_offset (max 1 p0) (min 100 (max 1 l0)))) db)
     = Some (map decode (dataQuery order_by (whereClause toISOString now q)
      (nat (min 100 (max 1 l0))) (nat (js_offset (max 1 p0) (min 100 (max 1 l0)))) db))"
    unfolding dataQuery_def by (rule decode_all_map) (rule list_all_take_drop[OF ok])
  show ?thesis
    unfolding handleGetFeedback_ok[OF ep el dec]
    by (simp add: dataQuery_def countQuery_def)
qed

text \<open>
  C8, at the requests the code misses. A page or a limit with no leading digit is
  \<^verbatim>\<open>NaN\<close> after \<^verbatim>\<open>parseInt\<close>, and \<^verbatim>\<open>Math.max(1, NaN)\<close> is \<^verbatim>\<open>NaN\<close>: the effective
  page is not at least 1 and the offset is no number. A page of 0 is clamped to 1, as
  the claim says; \<open>handleGetFeedback_pagination\<close> above is the claim for the requests
  whose page and limit are read as numbers, with \<open>js_offset_exact\<close> and
  \<open>Math_ceil_div_exact\<close> for the double arithmetic.
\<close>

theorem page_not_a_number:
  "effective_page (no_params\<lparr>page_param := Some ''abc''\<rparr>) = None
   \<and> effective_offset (no_params\<lparr>page_param := Some ''abc''\<rparr>) = None
   \<and> effective_limit (no_params\<lparr>limit_param := Some ''ten''\<rparr>) = None
   \<and> effective_page (no_params\<lparr>page_param := Some ''0''\<rparr>) = Some 1"
  by code_simp
subsection \<open>The Theme Index\<close>

lemma count_theme_None [simp]: "count_theme t None = None"
  by (simp add: count_theme_def)

lemma count_themes_read:
  "count_themes ts acc = foldl (\<lambda>a t. count_theme t a) acc (read_themes ts)"
  by (induction ts acc rule: count_themes.induct) simp_all

lemma foldl_count_theme_filter:
  "foldl (\<lambda>a t. count_theme t a) acc (filter (\<lambda>t. t \<noteq> []) ms)
   = foldl (\<lambda>a t. count_theme t a) acc ms"
  by (induction ms arbitrary: acc) (auto simp: count_theme_def)

lemma count_row_mentions:
  "count_row acc f = foldl (\<lambda>a t. count_theme t a) acc (row_mentions f)"
  by (auto simp: count_row_def row_mentions_def count_themes_read foldl_count_theme_filter
      split: option.splits json.splits)

lemma foldl_count_row:
  "foldl count_row acc rows = foldl (\<lambda>a t. count_theme t a) acc (mentions rows)"
  by (induction rows arbitrary: acc) (simp_all add: mentions_def count_row_mentions)

lemma foldl_count_theme_None [simp]: "foldl (\<lambda>a t. count_theme t a) None ms = None"
  by (induction ms) simp_all

lemma mentions_plain: "t \<in> set (mentions rows) \<Longrightarrow> t \<noteq> []"
  by (auto simp: mentions_def row_mentions_def split: option.splits json.splits)

lemma count_theme_constructor [simp]: "count_theme ''constructor'' acc = None"
  by (simp add: count_theme_def)

lemma count_theme_plain:
  "t \<noteq> [] \<Longrightarrow> t \<noteq> ''__proto__'' \<Longrightarrow>
   count_theme t (Some cs) = (if t = ''constructor'' then None else Some (increment t cs))"
  by (simp add: count_theme_def)

lemma foldl_count_theme_Some:
  "list_all (\<lambda>t. t \<noteq> []) ms \<Longrightarrow>
   foldl (\<lambda>a t. count_theme t a) (Some cs) ms =
     (if ''constructor'' \<in> set ms then None
      else Some (foldl (\<lambda>a t. increment t a) cs (filter (\<lambda>t. t \<noteq> ''__proto__'') ms)))"
proof (induction ms arbitrary: cs)
  case Nil
  then show ?case by simp
next
  case (Cons t ms)
  then have t: "t \<noteq> []" and rest: "list_all (\<lambda>t. t \<noteq> []) ms" by simp_all
  consider "t = ''constructor''" | "t = ''__proto__''"
    | "t \<noteq> ''constructor''" "t \<noteq> ''__proto__''" by blast
  then show ?case
  proof cases
    case 1
    then show ?thesis by simp
  next
    case 2
    then show ?thesis using Cons.IH[OF rest] by (simp add: count_theme_def)
  next
    case 3
    then show ?thesis using Cons.IH[OF rest] by (simp add: count_theme_plain[OF t])
  qed
qed

lemma themeCounts_mentions:
  "themeCounts rows =
     (if ''constructor'' \<in> set (mentions rows) then None
      else Some (foldl (\<lambda>a t. increment t a) []
                  (filter (\<lambda>t. t \<noteq> ''__proto__'') (mentions rows))))"
  unfolding themeCounts_def foldl_count_row
  by (rule foldl_count_theme_Some) (use mentions_plain in \<open>auto simp: list_all_iff\<close>)

lemma map_of_increment:
  "map_of (increment t cs) k =
     (if k = t then Some (case map_of cs t of None \<Rightarrow> 1 | Some n \<Rightarrow> n + 1) else map_of cs k)"
  by (induction t cs rule: increment.induct) auto

lemma keys_increment:
  "map fst (increment t cs) = (if t \<in> set (map fst cs) then map fst cs else map fst cs @ [t])"
  by (induction t cs rule: increment.induct) auto

lemma remdups_snoc: "remdups (xs @ [t]) = remdups (filter (\<lambda>x. x \<noteq> t) xs) @ [t]"
  by (induction xs) auto

lemma first_seen_Cons: "first_seen (t # ms) = t # first_seen (filter (\<lambda>x. x \<noteq> t) ms)"
  by (simp add: first_seen_def remdups_snoc rev_filter)

lemma first_seen_Nil [simp]: "first_seen [] = []"
  by (simp add: first_seen_def)

lemma set_first_seen [simp]: "set (first_seen ms) = set ms"
  by (simp add: first_seen_def)

lemma distinct_first_seen [simp]: "distinct (first_seen ms)"
  by (simp add: first_seen_def)

lemma keys_foldl_increment:
  "map fst (foldl (\<lambda>a t. increment t a) cs ms)
     = map fst cs @ first_seen (filter (\<lambda>t. t \<notin> set (map fst cs)) ms)"
proof (induction ms arbitrary: cs)
  case Nil
  then show ?case by simp
next
  case (Cons t ms)
  show ?case
  proof (cases "t \<in> set (map fst cs)")
    case True
    then show ?thesis by (simp add: Cons keys_increment)
  next
    case False
    have "filter (\<lambda>x. x \<notin> set (map fst cs @ [t])) ms
        = filter (\<lambda>x. x \<noteq> t) (filter (\<lambda>x. x \<notin> set (map fst cs)) ms)"
      by (induction ms) auto
    with False show ?thesis by (simp add: Cons keys_increment first_seen_Cons)
  qed
qed

lemma map_of_foldl_increment:
  "map_of (foldl (\<lambda>a t. increment t a) cs ms) k =
     (case map_of cs k of
        None \<Rightarrow> if k \<in> set ms then Some (count_list ms k) else None
      | Some n \<Rightarrow> Some (n + count_list ms k))"
  by (induction ms arbitrary: cs) (auto simp: map_of_increment split: option.splits)

lemma pairs_from_keys:
  "list_all (\<lambda>e. snd e = f (fst e)) xs \<Longrightarrow> xs = map (\<lambda>t. (t, f t)) (map fst xs)"
  by (induction xs) auto

lemma tally_counted: "foldl (\<lambda>a t. increment t a) [] ms = counted ms"
proof -
  let ?cs = "foldl (\<lambda>a t. increment t a) [] ms"
  have k: "map fst ?cs = first_seen ms" using keys_foldl_increment[of "[]" ms] by simp
  then have d: "distinct (map fst ?cs)" by simp
  have "\<forall>e \<in> set ?cs. snd e = count_list ms (fst e)"
  proof
    fix e assume e: "e \<in> set ?cs"
    then have "(fst e, snd e) \<in> set ?cs" by simp
    then have "map_of ?cs (fst e) = Some (snd e)"
      by (simp only: map_of_eq_Some_iff[OF d])
    moreover have "fst e \<in> set ms" using e k by (metis set_first_seen image_eqI set_map)
    ultimately show "snd e = count_list ms (fst e)"
      by (simp add: map_of_foldl_increment)
  qed
  then have "?cs = map (\<lambda>t. (t, count_list ms t)) (map fst ?cs)"
    by (intro pairs_from_keys) (simp add: list_all_iff)
  then show ?thesis unfolding counted_def k .
qed

lemma themeCounts_own:
  "themeCounts rows =
     (if ''constructor'' \<in> set (mentions rows) then None
      else Some (counted (filter (\<lambda>t. t \<noteq> ''__proto__'') (mentions rows))))"
  by (simp add: themeCounts_mentions tally_counted)

lemma themeCounts_counted:
  assumes "list_all (\<lambda>t. \<not> inherited t) (mentions rows)"
  shows "themeCounts rows = Some (counted (mentions rows))"
proof -
  have "filter (\<lambda>t. t \<noteq> ''__proto__'') (mentions rows) = mentions rows"
    using assms by (auto simp: list_all_iff inherited_def intro: filter_True)
  moreover have "''constructor'' \<notin> set (mentions rows)"
    using assms by (auto simp: list_all_iff inherited_def)
  ultimately show ?thesis by (simp add: themeCounts_own)
qed


lemma set_counted: "set (counted ms) = (\<lambda>t. (t, count_list ms t)) ` set ms"
  by (simp add: counted_def)

lemma set_Object_entries [simp]: "set (Object_entries cs) = set cs"
  by (auto simp: Object_entries_def)

lemma set_sort_by_count_desc [simp]: "set (sort_by_count_desc es) = set es"
  by (simp add: sort_by_count_desc_def)

lemma sorted_sort_by_count_desc:
  "sorted_wrt (\<lambda>a b. snd a \<ge> snd b) (sort_by_count_desc es)"
proof -
  have "sorted (map (\<lambda>e. - int (snd e)) (sort_by_count_desc es))"
    unfolding sort_by_count_desc_def by (rule sorted_sort_key)
  then show ?thesis by (simp add: sorted_map sorted_wrt_iff_nth_less)
qed

lemma stable_sort_by_count_desc:
  "filter (\<lambda>e. snd e = k) (sort_by_count_desc es) = filter (\<lambda>e. snd e = k) es"
proof -
  have "filter (\<lambda>e. - int (snd e) = - int k) (sort_key (\<lambda>e. - int (snd e)) es)
      = filter (\<lambda>e. - int (snd e) = - int k) es"
    by (rule sort_key_stable)
  then show ?thesis by (simp add: sort_by_count_desc_def)
qed

lemma sorted_wrt_take_drop:
  assumes "sorted_wrt R xs"
  shows "sorted_wrt R (take n xs) \<and> (\<forall>a \<in> set (take n xs). \<forall>b \<in> set (drop n xs). R a b)"
proof -
  have "sorted_wrt R (take n xs @ drop n xs)" using assms by simp
  then show ?thesis unfolding sorted_wrt_append by blast
qed

lemma top5_properties:
  fixes es :: "(string \<times> nat) list"
  defines "listed \<equiv> map as_ThemeCount (take 5 (sort_by_count_desc es))"
  shows "length listed \<le> 5"
    and "sorted_wrt (\<lambda>a b. count a \<ge> count b) listed"
    and "set listed \<subseteq> as_ThemeCount ` set es"
    and "prefix (filter (\<lambda>e. count e = k) listed) (filter (\<lambda>e. count e = k) (map as_ThemeCount es))"
    and "e \<in> set es \<Longrightarrow> as_ThemeCount e \<notin> set listed \<Longrightarrow>
           length listed = 5 \<and> (\<forall>a \<in> set listed. snd e \<le> count a)"
proof -
  let ?S = "sort_by_count_desc es"
  have sd: "sorted_wrt (\<lambda>a b. snd a \<ge> snd b) (take 5 ?S)"
    and cut: "\<forall>a \<in> set (take 5 ?S). \<forall>b \<in> set (drop 5 ?S). snd a \<ge> snd b"
    using sorted_wrt_take_drop[OF sorted_sort_by_count_desc, of 5 es] by blast+
  show "length listed \<le> 5" by (simp add: listed_def)
  show "sorted_wrt (\<lambda>a b. count a \<ge> count b) listed"
    using sd by (simp add: listed_def sorted_wrt_map as_ThemeCount_def)
  show "set listed \<subseteq> as_ThemeCount ` set es"
    using set_take_subset[of 5 ?S] by (auto simp: listed_def)
  have "prefix (filter (\<lambda>e. snd e = k) (take 5 ?S)) (filter (\<lambda>e. snd e = k) ?S)"
    by (rule filter_mono_prefix) (rule take_is_prefix)
  then have "prefix (map as_ThemeCount (filter (\<lambda>e. snd e = k) (take 5 ?S)))
      (map as_ThemeCount (filter (\<lambda>e. snd e = k) es))"
    unfolding stable_sort_by_count_desc by (rule map_mono_prefix)
  then show "prefix (filter (\<lambda>e. count e = k) listed) (filter (\<lambda>e. count e = k) (map as_ThemeCount es))"
    by (simp add: listed_def filter_map comp_def as_ThemeCount_def)
  show "length listed = 5 \<and> (\<forall>a \<in> set listed. snd e \<le> count a)"
    if e: "e \<in> set es" and out: "as_ThemeCount e \<notin> set listed"
  proof -
    from out have "e \<notin> set (take 5 ?S)" by (auto simp: listed_def)
    moreover have "e \<in> set (take 5 ?S @ drop 5 ?S)" using e by simp
    ultimately have d: "e \<in> set (drop 5 ?S)" by (simp only: set_append) blast
    then have "5 < length ?S" by (cases "5 < length ?S") auto
    then have "length listed = 5" by (simp add: listed_def)
    moreover have "\<forall>a \<in> set listed. snd e \<le> count a"
      using cut d by (auto simp: listed_def as_ThemeCount_def)
    ultimately show ?thesis by blast
  qed
qed

lemma distinct_keys_Object_entries:
  assumes "distinct (map fst cs)"
  shows "distinct (map fst (Object_entries cs))"
proof -
  from assms have d: "distinct cs" and i: "inj_on fst (set cs)"
    by (simp_all add: distinct_map)
  have "distinct (Object_entries cs)"
    using d by (auto simp: Object_entries_def)
  then show ?thesis using i by (simp add: distinct_map)
qed

lemma distinct_keys_counted: "distinct (map fst (counted ms))"
  by (simp add: counted_def comp_def)

lemma top5_distinct:
  assumes "distinct (map fst es)"
  shows "distinct (map theme (map as_ThemeCount (take 5 (sort_by_count_desc es))))"
proof -
  from assms have d: "distinct es" and i: "inj_on fst (set es)"
    by (simp_all add: distinct_map)
  have "distinct (take 5 (sort_by_count_desc es))"
    using d by (simp add: sort_by_count_desc_def)
  moreover have "inj_on fst (set (take 5 (sort_by_count_desc es)))"
    by (rule inj_on_subset[OF i]) (use set_take_subset[of 5 "sort_by_count_desc es"] in simp)
  ultimately have "distinct (map fst (take 5 (sort_by_count_desc es)))"
    by (simp add: distinct_map)
  then show ?thesis by (simp add: comp_def as_ThemeCount_def)
qed

lemma Object_entries_no_index:
  "list_all (\<lambda>e. array_index (fst e) = None) cs \<Longrightarrow> Object_entries cs = cs"
  by (simp add: Object_entries_def list_all_iff)

lemma sum_list_insort_key:
  "sum_list (map f (insort_key k x xs)) = f x + sum_list (map f xs)" for f :: "'a \<Rightarrow> nat"
  by (induction xs) auto

lemma sum_list_sort_key: "sum_list (map f (sort_key k xs)) = sum_list (map f xs)" for f :: "'a \<Rightarrow> nat"
  by (induction xs) (auto simp: sum_list_insort_key)

lemma sum_list_filter_split:
  "sum_list (map f (filter P xs)) + sum_list (map f (filter (\<lambda>x. \<not> P x) xs)) = sum_list (map f xs)"
  for f :: "'a \<Rightarrow> nat"
  by (induction xs) auto

lemma sum_Object_entries: "sum_list (map snd (Object_entries cs)) = sum_list (map snd cs)"
  for cs :: "nat object"
  using sum_list_filter_split[of snd "\<lambda>e. array_index (fst e) \<noteq> None" cs]
  by (simp add: Object_entries_def sum_list_sort_key del: not_None_eq)

lemma sum_increment: "sum_list (map snd (increment t cs)) = Suc (sum_list (map snd cs))"
  by (induction t cs rule: increment.induct) auto

lemma sum_foldl_increment:
  "sum_list (map snd (foldl (\<lambda>a t. increment t a) cs ms)) = sum_list (map snd cs) + length ms"
  by (induction ms arbitrary: cs) (auto simp: sum_increment)

lemma sum_counted: "sum_list (map snd (counted ms)) = length ms"
  using sum_foldl_increment[of "[]" ms] by (simp add: tally_counted)

lemma sum_counts_all_themes:
  "sum_list (map (count_list ms) (first_seen ms)) = length ms"
  using sum_counted[of ms] by (simp add: counted_def comp_def)



text \<open>
  C3, as amended. When no theme is \<^verbatim>\<open>constructor\<close> or \<^verbatim>\<open>__proto__\<close>, \<open>topThemes\<close>
  has at most 5 entries, of 5 different themes, sorted by count descending; each entry
  carries the number of occurrences of its theme; a theme that is not listed has at
  most the count of every listed one (and then 5 are listed); and
  the entries of one count stand in the order of \<^verbatim>\<open>Object.entries\<close> of the counting
  object: the themes that are array indices first, in ascending numeric order, then the
  other themes in first-encountered order (\<open>counted\<close> lists the themes in
  first-encountered order, and \<open>Object_entries_no_index\<close> says that the order is that
  one when no theme is an array index).
\<close>

theorem topThemes_ranked:
  assumes "list_all (\<lambda>t. \<not> inherited t) (mentions rows)"
  shows "\<exists>listed. topThemes rows = Some listed
     \<and> length listed \<le> 5
     \<and> distinct (map theme listed)
     \<and> sorted_wrt (\<lambda>a b. count a \<ge> count b) listed
     \<and> (\<forall>e \<in> set listed. theme e \<in> set (mentions rows)
            \<and> count e = count_list (mentions rows) (theme e))
     \<and> (\<forall>k. prefix (filter (\<lambda>e. count e = k) listed)
            (filter (\<lambda>e. count e = k)
               (map as_ThemeCount (Object_entries (counted (mentions rows))))))
     \<and> (\<forall>t \<in> set (mentions rows). t \<notin> theme ` set listed \<longrightarrow>
            length listed = 5 \<and> (\<forall>e \<in> set listed. count_list (mentions rows) t \<le> count e))"
proof -
  define ms where "ms = mentions rows"
  define es where "es = Object_entries (counted ms)"
  define listed where "listed = map as_ThemeCount (take 5 (sort_by_count_desc es))"
  have tt: "topThemes rows = Some listed"
    using assms
    by (simp add: topThemes_def themeCounts_counted listed_def es_def ms_def as_ThemeCount_def)
  have ses: "set es = (\<lambda>t. (t, count_list ms t)) ` set ms"
    by (simp add: es_def set_counted)
  note p = top5_properties[where es = es, folded listed_def]
  have 3: "\<forall>e \<in> set listed. theme e \<in> set ms \<and> count e = count_list ms (theme e)"
    using p(3) ses by (auto simp: as_ThemeCount_def)
  have 5: "\<forall>t \<in> set ms. t \<notin> theme ` set listed \<longrightarrow>
            length listed = 5 \<and> (\<forall>e \<in> set listed. count_list ms t \<le> count e)"
  proof (intro ballI impI)
    fix t assume t: "t \<in> set ms" and nt: "t \<notin> theme ` set listed"
    have e: "(t, count_list ms t) \<in> set es" using t ses by blast
    have "as_ThemeCount (t, count_list ms t) \<notin> set listed"
      using nt by (force simp: as_ThemeCount_def)
    from p(5)[OF e this] show "length listed = 5 \<and> (\<forall>e \<in> set listed. count_list ms t \<le> count e)"
      by simp
  qed
  have d: "distinct (map theme listed)"
    unfolding listed_def es_def
    by (intro top5_distinct distinct_keys_Object_entries distinct_keys_counted)
  show ?thesis
    unfolding ms_def[symmetric] es_def[symmetric]
    using tt p(1) d p(2) 3 p(4) 5 by blast
qed

theorem topThemes_ranked_witness:
  "list_all (\<lambda>t. \<not> inherited t) (mentions rows_404)
   \<and> (\<exists>top. topThemes rows_404 = Some top
     \<and> length top \<le> 5
     \<and> distinct (map theme top)
     \<and> sorted_wrt (\<lambda>a b. count a \<ge> count b) top
     \<and> (\<forall>e \<in> set top. theme e \<in> set (mentions rows_404)
            \<and> count e = count_list (mentions rows_404) (theme e))
     \<and> (\<forall>k. prefix (filter (\<lambda>e. count e = k) top)
            (filter (\<lambda>e. count e = k)
               (map as_ThemeCount (Object_entries (counted (mentions rows_404))))))
     \<and> (\<forall>t \<in> set (mentions rows_404). t \<notin> theme ` set top \<longrightarrow>
            length top = 5 \<and> (\<forall>e \<in> set top. count_list (mentions rows_404) t \<le> count e)))
   \<and> topThemes rows_404 =
       Some [\<lparr>theme = ''ui'', count = 2\<rparr>, \<lparr>theme = ''404'', count = 1\<rparr>,
             \<lparr>theme = ''500'', count = 1\<rparr>, \<lparr>theme = ''api'', count = 1\<rparr>]"
proof (intro conjI)
  show h: "list_all (\<lambda>t. \<not> inherited t) (mentions rows_404)" by code_simp
  show "\<exists>top. topThemes rows_404 = Some top
     \<and> length top \<le> 5
     \<and> distinct (map theme top)
     \<and> sorted_wrt (\<lambda>a b. count a \<ge> count b) top
     \<and> (\<forall>e \<in> set top. theme e \<in> set (mentions rows_404)
            \<and> count e = count_list (mentions rows_404) (theme e))
     \<and> (\<forall>k. prefix (filter (\<lambda>e. count e = k) top)
            (filter (\<lambda>e. count e = k)
               (map as_ThemeCount (Object_entries (counted (mentions rows_404))))))
     \<and> (\<forall>t \<in> set (mentions rows_404). t \<notin> theme ` set top \<longrightarrow>
            length top = 5 \<and> (\<forall>e \<in> set top. count_list (mentions rows_404) t \<le> count e))"
    by (rule topThemes_ranked[OF h])
  show "topThemes rows_404 =
       Some [\<lparr>theme = ''ui'', count = 2\<rparr>, \<lparr>theme = ''404'', count = 1\<rparr>,
             \<lparr>theme = ''500'', count = 1\<rparr>, \<lparr>theme = ''api'', count = 1\<rparr>]"
    by code_simp
qed

text \<open>C3 as stated fails: the scan meets \<^verbatim>\<open>ui\<close> before \<^verbatim>\<open>404\<close>, both occur once, and
  \<^verbatim>\<open>404\<close> is listed first.\<close>

theorem first_encountered_counterexample:
  "first_seen (mentions [row 1 ''negative'' 4 (themed [''ui'']) ''2024-01-01'',
                         row 2 ''negative'' 3 (themed [''404'']) ''2024-01-02''])
     = [''ui'', ''404'']
   \<and> topThemes [row 1 ''negative'' 4 (themed [''ui'']) ''2024-01-01'',
                 row 2 ''negative'' 3 (themed [''404'']) ''2024-01-02'']
     = Some [\<lparr>theme = ''404'', count = 1\<rparr>, \<lparr>theme = ''ui'', count = 1\<rparr>]"
  by code_simp

lemma top5_pairs:
  fixes es :: "(string \<times> nat) list"
  defines "listed \<equiv> take 5 (sort_by_count_desc es)"
  shows "length listed \<le> 5"
    and "sorted_wrt (\<lambda>a b. snd a \<ge> snd b) listed"
    and "set listed \<subseteq> set es"
    and "e \<in> set es \<Longrightarrow> e \<notin> set listed \<Longrightarrow>
           length listed = 5 \<and> (\<forall>a \<in> set listed. snd e \<le> snd a)"
proof -
  let ?S = "sort_by_count_desc es"
  have sd: "sorted_wrt (\<lambda>a b. snd a \<ge> snd b) (take 5 ?S)"
    and cut: "\<forall>a \<in> set (take 5 ?S). \<forall>b \<in> set (drop 5 ?S). snd a \<ge> snd b"
    using sorted_wrt_take_drop[OF sorted_sort_by_count_desc, of 5 es] by blast+
  show "length listed \<le> 5" by (simp add: listed_def)
  show "sorted_wrt (\<lambda>a b. snd a \<ge> snd b) listed" using sd by (simp add: listed_def)
  show "set listed \<subseteq> set es"
    using set_take_subset[of 5 ?S] by (auto simp: listed_def)
  show "length listed = 5 \<and> (\<forall>a \<in> set listed. snd e \<le> snd a)"
    if e: "e \<in> set es" and out: "e \<notin> set listed"
  proof -
    have "e \<in> set (take 5 ?S @ drop 5 ?S)" using e by simp
    with out have d: "e \<in> set (drop 5 ?S)" unfolding listed_def by (simp only: set_append) blast
    then have "5 < length ?S" by (cases "5 < length ?S") auto
    then have "length listed = 5" by (simp add: listed_def)
    moreover have "\<forall>a \<in> set listed. snd e \<le> snd a"
      using cut d by (auto simp: listed_def)
    ultimately show ?thesis by blast
  qed
qed

lemma double_product_error:
  fixes c T :: nat
  assumes "0 < T" and "c \<le> T"
  shows "\<bar>js_mul (js_div (of_nat c) (of_nat T)) 100 - 100 * rat_of_nat c / rat_of_nat T\<bar>
           \<le> 1 / 2 ^ 45"
proof -
  define x where "x = rat_of_nat c / rat_of_nat T"
  define q where "q = fl x"
  have x0: "0 \<le> x" by (simp add: x_def)
  have x1: "x \<le> 1" using assms by (simp add: x_def)
  have eq: "\<bar>q - x\<bar> \<le> 1 / 2 ^ 53"
  proof -
    have "\<bar>q - x\<bar> \<le> \<bar>x\<bar> / 2 ^ 53" unfolding q_def by (rule fl_error)
    also have "\<dots> \<le> 1 / 2 ^ 53" using x0 x1 by (simp add: divide_right_mono)
    finally show ?thesis .
  qed
  then have qb: "\<bar>q\<bar> \<le> 1 + 1 / 2 ^ 53" using x0 x1 by linarith
  have em: "\<bar>fl (q * 100) - q * 100\<bar> \<le> \<bar>q * 100\<bar> / 2 ^ 53" by (rule fl_error)
  have "\<bar>q * 100\<bar> = \<bar>q\<bar> * 100" by (simp add: abs_mult)
  then have "\<bar>q * 100\<bar> \<le> (1 + 1 / 2 ^ 53) * 100" using qb by simp
  then have "\<bar>q * 100\<bar> / 2 ^ 53 \<le> (1 + 1 / 2 ^ 53) * 100 / 2 ^ 53"
    by (simp add: divide_right_mono)
  with em have em': "\<bar>fl (q * 100) - q * 100\<bar> \<le> (1 + 1 / 2 ^ 53) * 100 / 2 ^ 53" by linarith
  have "\<bar>q * 100 - 100 * x\<bar> = \<bar>q - x\<bar> * 100" 
  proof -
    have "q * 100 - 100 * x = (q - x) * 100" by (simp add: algebra_simps)
    then have "\<bar>q * 100 - 100 * x\<bar> = \<bar>(q - x) * 100\<bar>" by (simp only:)
    also have "\<dots> = \<bar>q - x\<bar> * \<bar>100\<bar>" by (rule abs_mult)
    finally show ?thesis by simp
  qed
  then have e2: "\<bar>q * 100 - 100 * x\<bar> \<le> 100 / 2 ^ 53" using eq by simp
  have "\<bar>fl (q * 100) - 100 * x\<bar> \<le> (1 + 1 / 2 ^ 53) * 100 / 2 ^ 53 + 100 / 2 ^ 53"
    using em' e2 by linarith
  also have "\<dots> \<le> 1 / 2 ^ 45" by simp
  finally show ?thesis by (simp add: js_mul_def js_div_def q_def x_def)
qed

lemma floor_between:
  fixes y m :: rat
  assumes "of_int k + d \<le> y" and "y \<le> of_int k + 1 - d" and "\<bar>m - y\<bar> < d"
  shows "\<lfloor>m\<rfloor> = k"
  by (rule floor_unique) (use assms in linarith)+

lemma percentage_exact:
  fixes c T :: nat
  assumes T: "0 < T" and c: "c \<le> T" and small: "T < 2 ^ 44"
    and half: "\<not> 2 * T dvd 200 * c + T"
  shows "percentage_of c T = Math_round (100 * rat_of_nat c / rat_of_nat T)"
proof -
  define y where "y = 100 * rat_of_nat c / rat_of_nat T + 1 / 2"
  define m where "m = js_mul (js_div (of_nat c) (of_nat T)) 100 + 1 / 2"
  define k where "k = (200 * c + T) div (2 * T)"
  define r where "r = (200 * c + T) mod (2 * T)"
  define d where "d = 1 / (2 * rat_of_nat T)"
  have Tq: "(0::rat) < of_nat T" using T by simp
  have r1: "1 \<le> r" using half by (auto simp: r_def dvd_eq_mod_eq_0 Suc_le_eq)
  have r2: "r + 1 \<le> 2 * T" using T by (simp add: r_def Suc_le_eq)
  have split: "200 * c + T = k * (2 * T) + r"
    unfolding k_def r_def by (rule div_mult_mod_eq[symmetric])
  have "y = rat_of_nat (200 * c + T) / (2 * rat_of_nat T)"
    using Tq by (simp add: y_def field_simps)
  also have "\<dots> = rat_of_nat (k * (2 * T) + r) / (2 * rat_of_nat T)" by (simp only: split)
  also have "\<dots> = rat_of_nat k + rat_of_nat r * d"
    using Tq by (simp add: d_def field_simps)
  finally have y: "y = rat_of_nat k + rat_of_nat r * d" .
  have dpos: "0 < d" using Tq by (simp add: d_def)
  have "1 * d \<le> rat_of_nat r * d"
    using r1 dpos by (intro mult_right_mono) simp_all
  then have lo: "of_int (int k) + d \<le> y" by (simp add: y)
  have "rat_of_nat (r + 1) \<le> rat_of_nat (2 * T)" using r2 by (simp only: of_nat_le_iff)
  then have "rat_of_nat (r + 1) * d \<le> rat_of_nat (2 * T) * d"
    using dpos by (intro mult_right_mono) simp_all
  moreover have "rat_of_nat (2 * T) * d = 1" using Tq by (simp add: d_def)
  ultimately have "rat_of_nat r * d + d \<le> 1" by (simp add: algebra_simps)
  then have hi: "y \<le> of_int (int k) + 1 - d" by (simp add: y)
  have "rat_of_nat T < rat_of_nat (2 ^ 44)" using small by (simp only: of_nat_less_iff)
  then have "2 * rat_of_nat T < 2 ^ 45" by simp
  then have "1 / 2 ^ 45 < d" using Tq unfolding d_def by (intro divide_strict_left_mono) simp_all
  moreover have "\<bar>m - y\<bar> \<le> 1 / 2 ^ 45"
    using double_product_error[OF T c] by (simp add: m_def y_def)
  ultimately have near: "\<bar>m - y\<bar> < d" by simp
  have "\<bar>y - y\<bar> < d" using dpos by simp
  then have "\<lfloor>y\<rfloor> = int k" by (rule floor_between[OF lo hi])
  moreover have "\<lfloor>m\<rfloor> = int k" by (rule floor_between[OF lo hi near])
  ultimately show ?thesis by (simp add: percentage_of_def Math_round_def m_def y_def)
qed

text \<open>
  C7, as amended. When no theme is \<^verbatim>\<open>constructor\<close> or \<^verbatim>\<open>__proto__\<close>, the theme
  distribution lists at most 5 themes, all different, sorted by count descending, each
  with the number of its occurrences; a theme that is not listed has at most the count
  of every listed one. The percentage of an entry is
  \<open>percentage_of count totalMentions\<close>, that is
  \<^verbatim>\<open>Math.round((count / totalMentions) * 100)\<close> with the quotient and the product each
  rounded to a double, where \<open>totalMentions\<close> is the sum of the counts of all themes,
  listed or not (the number of all mentions). With fewer than \<open>2 ^ 44\<close> mentions this
  is \<open>round (100 * count / totalMentions)\<close> of exact arithmetic, a half rounded up,
  unless \<open>100 * count / totalMentions\<close> is a whole number and a half. The witness
  holds the example of the specification (a twice, b once: 67 and 33) and six themes
  of one mention each, whose five listed percentages are 17 each.
\<close>

theorem themeDistribution_shares:
  assumes "list_all (\<lambda>t. \<not> inherited t) (mentions fb)"
  shows "\<exists>ds. themeDistribution fb = Some ds
     \<and> length ds \<le> 5
     \<and> distinct (map theme ds)
     \<and> sorted_wrt (\<lambda>a b. count a \<ge> count b) ds
     \<and> (\<forall>d \<in> set ds. theme d \<in> set (mentions fb)
            \<and> count d = count_list (mentions fb) (theme d)
            \<and> percentage d = percentage_of (count d) (totalMentions (mentions fb))
            \<and> (length (mentions fb) < 2 ^ 44
                 \<and> \<not> 2 * totalMentions (mentions fb)
                       dvd 200 * count d + totalMentions (mentions fb)
               \<longrightarrow> percentage d = Math_round (100 * rat_of_nat (count d)
                                   / rat_of_nat (totalMentions (mentions fb)))))
     \<and> (\<forall>t \<in> set (mentions fb). t \<notin> theme ` set ds \<longrightarrow>
            length ds = 5 \<and> (\<forall>d \<in> set ds. count_list (mentions fb) t \<le> count d))
     \<and> totalMentions (mentions fb) = length (mentions fb)"
proof -
  define ms where "ms = mentions fb"
  define es where "es = Object_entries (counted ms)"
  define listed where "listed = take 5 (sort_by_count_desc es)"
  define T where "T = totalMentions ms"
  define mk :: "string \<times> nat \<Rightarrow> ThemeShare"
    where "mk = (\<lambda>e. \<lparr>theme = fst e, count = snd e, percentage = percentage_of (snd e) T\<rparr>)"
  define ds where "ds = map mk listed"
  have Tl: "T = length ms" unfolding T_def totalMentions_def by (rule sum_counted)
  have tot: "sum_list (map snd es) = T"
    by (simp add: es_def sum_Object_entries sum_counted Tl)
  have td: "themeDistribution fb = Some ds"
    using assms
    by (simp add: themeDistribution_def themeCounts_counted ms_def[symmetric]
        es_def[symmetric] tot Let_def ds_def mk_def listed_def)
  have ses: "set es = (\<lambda>t. (t, count_list ms t)) ` set ms"
    by (simp add: es_def set_counted)
  note p = top5_pairs[where es = es, folded listed_def]
  have 1: "length ds \<le> 5" using p(1) by (simp add: ds_def)
  have 2: "sorted_wrt (\<lambda>a b. count a \<ge> count b) ds"
    using p(2) by (simp add: ds_def sorted_wrt_map mk_def)
  have 3: "\<forall>d \<in> set ds. theme d \<in> set ms \<and> count d = count_list ms (theme d)
            \<and> percentage d = percentage_of (count d) T
            \<and> (length ms < 2 ^ 44 \<and> \<not> 2 * T dvd 200 * count d + T
               \<longrightarrow> percentage d = Math_round (100 * rat_of_nat (count d) / rat_of_nat T))"
  proof
    fix d assume d: "d \<in> set ds"
    have a: "theme d \<in> set ms" and b: "count d = count_list ms (theme d)"
      and c: "percentage d = percentage_of (count d) T"
      using d p(3) ses by (auto simp: ds_def mk_def)
    have Tpos: "0 < T" using a unfolding Tl by (cases ms) auto
    have cT: "count d \<le> T" unfolding b Tl by (rule count_le_length)
    have "percentage d = Math_round (100 * rat_of_nat (count d) / rat_of_nat T)"
      if "length ms < 2 ^ 44" and "\<not> 2 * T dvd 200 * count d + T"
      unfolding c using Tpos cT that(1)[folded Tl] that(2) by (rule percentage_exact)
    with a b c show "theme d \<in> set ms \<and> count d = count_list ms (theme d)
            \<and> percentage d = percentage_of (count d) T
            \<and> (length ms < 2 ^ 44 \<and> \<not> 2 * T dvd 200 * count d + T
               \<longrightarrow> percentage d = Math_round (100 * rat_of_nat (count d) / rat_of_nat T))"
      by blast
  qed
  have dd: "distinct (map theme ds)"
  proof -
    have "map theme ds = map theme (map as_ThemeCount (take 5 (sort_by_count_desc es)))"
      by (simp add: ds_def mk_def listed_def as_ThemeCount_def)
    then show ?thesis unfolding es_def
      by (simp only:) (intro top5_distinct distinct_keys_Object_entries distinct_keys_counted)
  qed
  have 4: "\<forall>t \<in> set ms. t \<notin> theme ` set ds \<longrightarrow>
            length ds = 5 \<and> (\<forall>d \<in> set ds. count_list ms t \<le> count d)"
  proof (intro ballI impI)
    fix t assume t: "t \<in> set ms" and nt: "t \<notin> theme ` set ds"
    have e: "(t, count_list ms t) \<in> set es" using t ses by blast
    have "(t, count_list ms t) \<notin> set listed"
      using nt by (force simp: ds_def mk_def)
    from p(4)[OF e this] show "length ds = 5 \<and> (\<forall>d \<in> set ds. count_list ms t \<le> count d)"
      by (simp add: ds_def mk_def)
  qed
  show ?thesis
    unfolding ms_def[symmetric] T_def[symmetric]
    using td 1 dd 2 3 4 Tl by blast
qed

theorem themeDistribution_shares_witness:
  "list_all (\<lambda>t. \<not> inherited t) (mentions rows_ab)
   \<and> (\<exists>ds. themeDistribution rows_ab = Some ds
     \<and> length ds \<le> 5
     \<and> distinct (map theme ds)
     \<and> sorted_wrt (\<lambda>a b. count a \<ge> count b) ds
     \<and> (\<forall>d \<in> set ds. theme d \<in> set (mentions rows_ab)
            \<and> count d = count_list (mentions rows_ab) (theme d)
            \<and> percentage d = percentage_of (count d) (totalMentions (mentions rows_ab))
            \<and> (length (mentions rows_ab) < 2 ^ 44
                 \<and> \<not> 2 * totalMentions (mentions rows_ab)
                       dvd 200 * count d + totalMentions (mentions rows_ab)
               \<longrightarrow> percentage d = Math_round (100 * rat_of_nat (count d)
                                   / rat_of_nat (totalMentions (mentions rows_ab)))))
     \<and> (\<forall>t \<in> set (mentions rows_ab). t \<notin> theme ` set ds \<longrightarrow>
            length ds = 5 \<and> (\<forall>d \<in> set ds. count_list (mentions rows_ab) t \<le> count d))
     \<and> totalMentions (mentions rows_ab) = length (mentions rows_ab))
   \<and> themeDistribution rows_ab =
       Some [\<lparr>theme = ''a'', count = 2, percentage = 67\<rparr>,
             \<lparr>theme = ''b'', count = 1, percentage = 33\<rparr>]
   \<and> \<not> 2 * totalMentions (mentions rows_ab) dvd 200 * 2 + totalMentions (mentions rows_ab)
   \<and> Math_round (100 * 2 / 3) = 67
   \<and> map_option (map percentage) (themeDistribution rows_six) = Some [17, 17, 17, 17, 17]"
proof (intro conjI)
  show h: "list_all (\<lambda>t. \<not> inherited t) (mentions rows_ab)" by code_simp
  show "\<exists>ds. themeDistribution rows_ab = Some ds
     \<and> length ds \<le> 5
     \<and> distinct (map theme ds)
     \<and> sorted_wrt (\<lambda>a b. count a \<ge> count b) ds
     \<and> (\<forall>d \<in> set ds. theme d \<in> set (mentions rows_ab)
            \<and> count d = count_list (mentions rows_ab) (theme d)
            \<and> percentage d = percentage_of (count d) (totalMentions (mentions rows_ab))
            \<and> (length (mentions rows_ab) < 2 ^ 44
                 \<and> \<not> 2 * totalMentions (mentions rows_ab)
                       dvd 200 * count d + totalMentions (mentions rows_ab)
               \<longrightarrow> percentage d = Math_round (100 * rat_of_nat (count d)
                                   / rat_of_nat (totalMentions (mentions rows_ab)))))
     \<and> (\<forall>t \<in> set (mentions rows_ab). t \<notin> theme ` set ds \<longrightarrow>
            length ds = 5 \<and> (\<forall>d \<in> set ds. count_list (mentions rows_ab) t \<le> count d))
     \<and> totalMentions (mentions rows_ab) = length (mentions rows_ab)"
    by (rule themeDistribution_shares[OF h])
  show "themeDistribution rows_ab =
       Some [\<lparr>theme = ''a'', count = 2, percentage = 67\<rparr>,
             \<lparr>theme = ''b'', count = 1, percentage = 33\<rparr>]"
    by code_simp
  show "\<not> 2 * totalMentions (mentions rows_ab) dvd 200 * 2 + totalMentions (mentions rows_ab)"
    by code_simp
  show "Math_round (100 * 2 / 3) = 67" by code_simp
  show "map_option (map percentage) (themeDistribution rows_six) = Some [17, 17, 17, 17, 17]"
    by code_simp
qed

text \<open>
  C7 as stated fails: forty rows, 23 with the theme a and 17 with the theme b. Then
  \<open>100 * 23 / 40\<close> is 57.5, which rounds to 58 (a half rounded up, and a half rounded
  to even as well). The code divides first: the double nearest to 0.575 is below it, its
  product with 100 is the double 57.49999999999999, and \<^verbatim>\<open>Math.round\<close> gives 57.
\<close>

theorem percentage_counterexample:
  "themeDistribution rows_40 =
     Some [\<lparr>theme = ''a'', count = 23, percentage = 57\<rparr>,
           \<lparr>theme = ''b'', count = 17, percentage = 43\<rparr>]
   \<and> totalMentions (mentions rows_40) = 40
   \<and> Math_round (100 * 23 / 40) = 58
   \<and> round_half_even (100 * 23 / 40) = 58
   \<and> js_mul (js_div 23 40) 100 < 575 / 10"
  by code_simp
subsection \<open>The sentiment trend\<close>

lemma calcPositiveRatio_double: "calcPositiveRatio xs = fl (exact_ratio xs)"
proof (cases xs)
  case Nil
  then show ?thesis by (simp add: calcPositiveRatio_def exact_ratio_def fl_def)
next
  case (Cons x ys)
  then show ?thesis
    by (simp add: calcPositiveRatio_def exact_ratio_def count_sentiment_def Let_def js_div_def)
qed

lemma exact_ratio_fraction:
  "exact_ratio xs =
     of_int (int (count_sentiment ''positive'' xs) - int (count_sentiment ''negative'' xs))
       / of_nat (max 1 (length xs))"
proof (cases xs)
  case Nil
  then show ?thesis by (simp add: exact_ratio_def count_sentiment_def)
next
  case (Cons x ys)
  then have "max 1 (length xs) = length xs" by simp
  then show ?thesis using Cons by (simp add: exact_ratio_def)
qed

lemma exact_ratio_bound: "\<bar>exact_ratio xs\<bar> \<le> 1"
proof -
  define p where "p = int (count_sentiment ''positive'' xs) - int (count_sentiment ''negative'' xs)"
  define a where "a = max 1 (length xs)"
  have "count_sentiment ''positive'' xs \<le> length xs" "count_sentiment ''negative'' xs \<le> length xs"
    by (simp_all add: count_sentiment_def)
  then have "\<bar>p\<bar> \<le> int a" unfolding p_def a_def by linarith
  then have "rat_of_int \<bar>p\<bar> \<le> rat_of_int (int a)" by (simp only: of_int_le_iff)
  then have "\<bar>rat_of_int p\<bar> \<le> rat_of_nat a" by simp
  moreover have "(0::rat) < of_nat a" by (simp add: a_def)
  ultimately have "\<bar>rat_of_int p\<bar> / rat_of_nat a \<le> 1" by (simp add: divide_le_eq)
  then show ?thesis unfolding exact_ratio_fraction p_def[symmetric] a_def[symmetric] by simp
qed

lemma double_diff_error:
  assumes "\<bar>e1\<bar> \<le> 1" and "\<bar>e2\<bar> \<le> 1"
  shows "\<bar>js_sub (fl e1) (fl e2) - (e1 - e2)\<bar> \<le> 1 / 2 ^ 50"
proof -
  have a: "\<bar>fl e1 - e1\<bar> \<le> 1 / 2 ^ 53"
  proof -
    have "\<bar>fl e1 - e1\<bar> \<le> \<bar>e1\<bar> / 2 ^ 53" by (rule fl_error)
    also have "\<dots> \<le> 1 / 2 ^ 53" using assms(1) by (simp add: divide_right_mono)
    finally show ?thesis .
  qed
  have b: "\<bar>fl e2 - e2\<bar> \<le> 1 / 2 ^ 53"
  proof -
    have "\<bar>fl e2 - e2\<bar> \<le> \<bar>e2\<bar> / 2 ^ 53" by (rule fl_error)
    also have "\<dots> \<le> 1 / 2 ^ 53" using assms(2) by (simp add: divide_right_mono)
    finally show ?thesis .
  qed
  have k: "(1::rat) / 2 ^ 53 \<le> 1 / 2" by simp
  have s: "\<bar>fl e1 - fl e2\<bar> \<le> 3" using a b k assms by linarith
  have "\<bar>fl (fl e1 - fl e2) - (fl e1 - fl e2)\<bar> \<le> \<bar>fl e1 - fl e2\<bar> / 2 ^ 53" by (rule fl_error)
  also have "\<dots> \<le> 3 / 2 ^ 53" using s by (simp add: divide_right_mono)
  finally have c: "\<bar>fl (fl e1 - fl e2) - (fl e1 - fl e2)\<bar> \<le> 3 / 2 ^ 53" .
  have "\<bar>fl (fl e1 - fl e2) - (e1 - e2)\<bar> \<le> 3 / 2 ^ 53 + 1 / 2 ^ 53 + 1 / 2 ^ 53"
    using a b c by linarith
  also have "\<dots> \<le> 1 / 2 ^ 50" by simp
  finally show ?thesis by (simp add: js_sub_def)
qed

lemma tenth_error: "\<bar>fl (1 / 10) - 1 / 10\<bar> \<le> 1 / 2 ^ 56"
proof -
  have "\<bar>fl (1 / 10) - 1 / 10\<bar> \<le> \<bar>1 / 10\<bar> / 2 ^ 53" by (rule fl_error)
  also have "\<dots> \<le> 1 / 2 ^ 56" by simp
  finally show ?thesis .
qed

lemma fraction_apart:
  fixes a b :: nat and p q n :: int
  assumes a: "1 \<le> a" and b: "1 \<le> b"
    and ne: "rat_of_int p / rat_of_nat a - rat_of_int q / rat_of_nat b \<noteq> rat_of_int n / 10"
  shows "1 / (10 * rat_of_nat a * rat_of_nat b)
           \<le> \<bar>rat_of_int p / rat_of_nat a - rat_of_int q / rat_of_nat b - rat_of_int n / 10\<bar>"
proof -
  define N where "N = 10 * (p * int b - q * int a) - n * int a * int b"
  define D where "D = 10 * rat_of_nat a * rat_of_nat b"
  have Dpos: "0 < D" using a b by (simp add: D_def)
  have eq: "rat_of_int p / rat_of_nat a - rat_of_int q / rat_of_nat b - rat_of_int n / 10
      = rat_of_int N / D"
    using a b by (simp add: N_def D_def field_simps)
  have "N \<noteq> 0"
  proof
    assume "N = 0"
    then have "rat_of_int p / rat_of_nat a - rat_of_int q / rat_of_nat b - rat_of_int n / 10 = 0"
      unfolding eq by simp
    with ne show False by simp
  qed
  then have "1 \<le> \<bar>N\<bar>" by linarith
  then have "rat_of_int 1 \<le> rat_of_int \<bar>N\<bar>" by (simp only: of_int_le_iff)
  then have "1 \<le> \<bar>rat_of_int N\<bar>" by simp
  then have "1 / D \<le> \<bar>rat_of_int N\<bar> / D" using Dpos by (simp add: divide_right_mono)
  also have "\<dots> = \<bar>rat_of_int N / D\<bar>" using Dpos by simp
  finally show ?thesis unfolding eq D_def .
qed

lemma same_class:
  fixes d d' t t' m :: rat
  assumes "\<bar>d' - d\<bar> \<le> 1 / 2 ^ 50" and "\<bar>t' - t\<bar> \<le> 1 / 2 ^ 56"
    and "1 / 2 ^ 48 \<le> \<bar>d - t\<bar>" and "1 / 2 ^ 48 \<le> \<bar>d + t\<bar>"
  shows "(d' > t') = (d > t)" and "(d' < - t') = (d < - t)"
proof -
  have "(1::rat) / 2 ^ 50 + 1 / 2 ^ 56 < 1 / 2 ^ 48" by simp
  then show "(d' > t') = (d > t)" using assms(1,2,3) by linarith
  have "(1::rat) / 2 ^ 50 + 1 / 2 ^ 56 < 1 / 2 ^ 48" by simp
  then show "(d' < - t') = (d < - t)" using assms(1,2,4) by linarith
qed

lemma double_trend_exact:
  assumes n: "length fb < 2 ^ 22"
    and up: "exact_diff fb \<noteq> 1 / 10" and down: "exact_diff fb \<noteq> - (1 / 10)"
  shows "double_trend fb = exact_trend fb"
proof -
  define p where "p = int (count_sentiment ''positive'' (recent_half fb))
      - int (count_sentiment ''negative'' (recent_half fb))"
  define q where "q = int (count_sentiment ''positive'' (older_half fb))
      - int (count_sentiment ''negative'' (older_half fb))"
  define a where "a = max 1 (length (recent_half fb))"
  define b where "b = max 1 (length (older_half fb))"
  have d: "exact_diff fb = rat_of_int p / rat_of_nat a - rat_of_int q / rat_of_nat b"
    by (simp only: exact_diff_def exact_ratio_fraction p_def q_def a_def b_def)
  have a1: "1 \<le> a" and b1: "1 \<le> b" by (simp_all add: a_def b_def)
  have "length (recent_half fb) \<le> length fb" by (simp add: recent_half_def)
  then have a2: "a < 2 ^ 22" using n by (simp add: a_def)
  have "length (older_half fb) \<le> length fb" by (simp add: older_half_def)
  then have b2: "b < 2 ^ 22" using n by (simp add: b_def)
  have D: "10 * rat_of_nat a * rat_of_nat b \<le> 2 ^ 48"
  proof -
    have "a \<le> 2 ^ 22" "b \<le> 2 ^ 22" using a2 b2 by simp_all
    then have "a * b \<le> 2 ^ 22 * 2 ^ 22" by (rule mult_le_mono)
    then have "rat_of_nat (a * b) \<le> rat_of_nat (2 ^ 22 * 2 ^ 22)" by (simp only: of_nat_le_iff)
    then have "rat_of_nat a * rat_of_nat b \<le> 2 ^ 44" by simp
    then show ?thesis by simp
  qed
  have Dpos: "0 < 10 * rat_of_nat a * rat_of_nat b" using a1 b1 by simp
  have inv: "1 / 2 ^ 48 \<le> 1 / (10 * rat_of_nat a * rat_of_nat b)"
    using D Dpos by (simp add: frac_le)
  have "exact_diff fb \<noteq> rat_of_int 1 / 10" using up by simp
  then have "1 / (10 * rat_of_nat a * rat_of_nat b) \<le> \<bar>exact_diff fb - rat_of_int 1 / 10\<bar>"
    unfolding d by (rule fraction_apart[OF a1 b1])
  then have m1: "1 / 2 ^ 48 \<le> \<bar>exact_diff fb - 1 / 10\<bar>" using inv by simp
  have "exact_diff fb \<noteq> rat_of_int (- 1) / 10" using down by simp
  then have "1 / (10 * rat_of_nat a * rat_of_nat b) \<le> \<bar>exact_diff fb - rat_of_int (- 1) / 10\<bar>"
    unfolding d by (rule fraction_apart[OF a1 b1])
  then have m2: "1 / 2 ^ 48 \<le> \<bar>exact_diff fb + 1 / 10\<bar>" using inv by simp
  have e: "\<bar>double_diff fb - exact_diff fb\<bar> \<le> 1 / 2 ^ 50"
    unfolding double_diff_def exact_diff_def
    by (rule double_diff_error) (rule exact_ratio_bound)+
  note s = same_class[OF e tenth_error m1 m2]
  show ?thesis by (simp only: double_trend_def exact_trend_def s)
qed

text \<open>
  C1, as amended. For rows that are not empty (ordered by \<^verbatim>\<open>created_at\<close> descending, as
  the handler reads them), the rows split at the midpoint into the recent half (the
  first \<open>length div 2\<close> rows, or the single row) and the older half (the rest), and the
  two counts are taken over the recent half. The trend is the class of
  \<open>recentRatio - olderRatio\<close> in the arithmetic of the code, where the two quotients,
  the difference and 0.1 are doubles (\<open>double_trend\<close>). For fewer than \<open>2 ^ 22\<close> rows
  this is the class in exact arithmetic (\<open>exact_trend\<close>: improving above 0.1, declining
  below -0.1, stable otherwise) whenever the exact difference of the ratios is neither
  0.1 nor -0.1. The witness is the scenario of the specification.
\<close>

theorem sentimentTrend_halves:
  assumes "fb \<noteq> []"
  shows "recent_half fb @ older_half fb = fb
     \<and> length (recent_half fb) = max 1 (length fb div 2)
     \<and> trend (sentimentTrend fb) = double_trend fb
     \<and> (length fb < 2 ^ 22 \<and> exact_diff fb \<noteq> 1 / 10 \<and> exact_diff fb \<noteq> - (1 / 10)
          \<longrightarrow> trend (sentimentTrend fb) = exact_trend fb)
     \<and> recentPositive (sentimentTrend fb) = count_sentiment ''positive'' (recent_half fb)
     \<and> recentNegative (sentimentTrend fb) = count_sentiment ''negative'' (recent_half fb)"
proof -
  define cut where "cut = (if length fb div 2 = 0 then 1 else length fb div 2)"
  have n: "0 < length fb" using assms by simp
  have r: "recent_half fb = take cut fb"
  proof (cases "length fb = 1")
    case True
    then show ?thesis by (simp add: recent_half_def cut_def)
  next
    case False
    with n have "2 \<le> length fb" by linarith
    then have "length fb div 2 \<noteq> 0" by simp
    with False show ?thesis by (simp add: recent_half_def cut_def)
  qed
  have cl: "cut \<le> length fb" using assms by (cases fb) (auto simp: cut_def)
  then have lr: "length (recent_half fb) = cut" by (simp add: r)
  have o: "older_half fb = drop cut fb" by (simp add: older_half_def lr)
  have 1: "recent_half fb @ older_half fb = fb" by (simp add: r o)
  have 2: "length (recent_half fb) = max 1 (length fb div 2)"
    unfolding lr by (auto simp: cut_def)
  have 3: "trend (sentimentTrend fb) = double_trend fb"
    unfolding double_trend_def double_diff_def r o
    by (simp add: sentimentTrend_def Let_def cut_def[symmetric] calcPositiveRatio_double)
  have 4: "length fb < 2 ^ 22 \<and> exact_diff fb \<noteq> 1 / 10 \<and> exact_diff fb \<noteq> - (1 / 10)
          \<longrightarrow> trend (sentimentTrend fb) = exact_trend fb"
    unfolding 3 using double_trend_exact by blast
  have 5: "recentPositive (sentimentTrend fb) = count_sentiment ''positive'' (recent_half fb)"
    unfolding r
    by (simp add: sentimentTrend_def Let_def cut_def[symmetric] count_sentiment_def)
  have 6: "recentNegative (sentimentTrend fb) = count_sentiment ''negative'' (recent_half fb)"
    unfolding r
    by (simp add: sentimentTrend_def Let_def cut_def[symmetric] count_sentiment_def)
  from 1 2 3 4 5 6 show ?thesis by blast
qed

theorem sentimentTrend_halves_witness:
  "rows_ppnn \<noteq> []
   \<and> length rows_ppnn < 2 ^ 22
   \<and> map row_id (recent_half rows_ppnn) = [4, 3]
   \<and> map row_id (older_half rows_ppnn) = [2, 1]
   \<and> exact_ratio (recent_half rows_ppnn) = 1
   \<and> exact_ratio (older_half rows_ppnn) = - 1
   \<and> exact_diff rows_ppnn = 2
   \<and> exact_trend rows_ppnn = ''improving''
   \<and> trend (sentimentTrend rows_ppnn) = ''improving''
   \<and> recentPositive (sentimentTrend rows_ppnn) = 2
   \<and> recentNegative (sentimentTrend rows_ppnn) = 0"
proof -
  have h: "rows_ppnn \<noteq> []" by (simp add: rows_ppnn_def)
  have l: "length rows_ppnn < 2 ^ 22" by (simp add: rows_ppnn_def)
  have a: "map row_id (recent_half rows_ppnn) = [4, 3]"
    and b: "map row_id (older_half rows_ppnn) = [2, 1]"
    and c: "exact_ratio (recent_half rows_ppnn) = 1"
    and d: "exact_ratio (older_half rows_ppnn) = - 1"
    and e: "exact_diff rows_ppnn = 2"
    and t: "exact_trend rows_ppnn = ''improving''"
    and f: "count_sentiment ''positive'' (recent_half rows_ppnn) = 2"
    and g: "count_sentiment ''negative'' (recent_half rows_ppnn) = 0"
    by code_simp+
  have ne: "exact_diff rows_ppnn \<noteq> 1 / 10" "exact_diff rows_ppnn \<noteq> - (1 / 10)"
    unfolding e by simp_all
  from sentimentTrend_halves[OF h] l ne have
    "trend (sentimentTrend rows_ppnn) = exact_trend rows_ppnn"
    and "recentPositive (sentimentTrend rows_ppnn) = count_sentiment ''positive'' (recent_half rows_ppnn)"
    and "recentNegative (sentimentTrend rows_ppnn) = count_sentiment ''negative'' (recent_half rows_ppnn)"
    by blast+
  then show ?thesis using h l a b c d e t f g by simp
qed

text \<open>
  C1 as stated fails: of twenty rows, four of the ten recent ones and three of the ten
  older ones are positive and the others are neutral. The ratios are 4/10 and 3/10,
  their difference is 0.1 and not above it, and the trend of the claim is stable. The
  difference of the two doubles is 0.10000000000000003, above the double 0.1, and the
  code answers improving.
\<close>

theorem exact_tenth_counterexample:
  "trend (sentimentTrend rows_20) = ''improving''
   \<and> exact_ratio (recent_half rows_20) = 4 / 10
   \<and> exact_ratio (older_half rows_20) = 3 / 10
   \<and> exact_diff rows_20 = 1 / 10
   \<and> exact_trend rows_20 = ''stable''
   \<and> js_sub (fl (4 / 10)) (fl (3 / 10)) > fl (1 / 10)"
  by code_simp

subsection \<open>The most urgent issue\<close>

text \<open>
  C2, at the themes the code misses. A negative row with the theme \<^verbatim>\<open>constructor\<close> and
  priority 5 and one with the theme \<^verbatim>\<open>ui\<close> and priority 1: the averages are 5 and 1,
  and the code answers \<^verbatim>\<open>ui\<close>, because the read of
  \<^verbatim>\<open>negativeThemePriorities['constructor']\<close> finds the inherited function and no entry
  is made. With the first row alone the answer is \<^verbatim>\<open>null\<close>, though a negative row
  carries a theme. \<open>mostUrgentIssue_selects\<close> below is the claim for rows without
  the two inherited names.
\<close>

theorem inherited_theme_is_dropped:
  "negative_mentions rows_constructor = [(''constructor'', 5), (''ui'', 1)]
   \<and> average (negative_mentions rows_constructor) ''constructor'' = 5
   \<and> average (negative_mentions rows_constructor) ''ui'' = 1
   \<and> mostUrgentIssue rows_constructor = Some \<lparr>theme = ''ui'', count = 1, avgPriority = 1\<rparr>
   \<and> mostUrgentIssue [row 2 ''negative'' 5 (themed [''constructor'']) ''2024-01-02''] = None"
  by code_simp

subsection \<open>The most urgent issue: the selection\<close>

lemma more_urgent_entry:
  "more_urgent st e =
     (if entry_average e > fst st
         \<or> (entry_average e = fst st
             \<and> snd (snd e) > (case snd st of None \<Rightarrow> 0 | Some issue \<Rightarrow> count issue))
      then (entry_average e, Some (entry_issue e)) else st)"
  by (simp add: more_urgent_def entry_average_def entry_issue_def Let_def)

lemma foldl_more_urgent:
  assumes "list_all (\<lambda>e. 0 < entry_average e) es"
  shows "(es = [] \<longrightarrow> foldl more_urgent (0, None) es = (0, None))
     \<and> (es \<noteq> [] \<longrightarrow>
          (\<exists>e \<in> set es. foldl more_urgent (0, None) es = (entry_average e, Some (entry_issue e))
             \<and> (\<forall>e' \<in> set es. entry_average e' < entry_average e
                   \<or> (entry_average e' = entry_average e \<and> snd (snd e') \<le> snd (snd e)))))"
  using assms
proof (induction es rule: rev_induct)
  case Nil
  then show ?case by simp
next
  case (snoc x xs)
  then have px: "0 < entry_average x" and pxs: "list_all (\<lambda>e. 0 < entry_average e) xs"
    by simp_all
  note ih = snoc.IH[OF pxs]
  show ?case
  proof (cases "xs = []")
    case True
    then show ?thesis using px by (simp add: more_urgent_entry)
  next
    case False
    with ih obtain e where e: "e \<in> set xs"
      and st: "foldl more_urgent (0, None) xs = (entry_average e, Some (entry_issue e))"
      and mx: "\<forall>e' \<in> set xs. entry_average e' < entry_average e
                   \<or> (entry_average e' = entry_average e \<and> snd (snd e') \<le> snd (snd e))"
      by blast
    have c: "count (entry_issue e) = snd (snd e)" by (simp add: entry_issue_def)
    show ?thesis
    proof (cases "entry_average x > entry_average e
         \<or> (entry_average x = entry_average e \<and> snd (snd x) > snd (snd e))")
      case True
      then have "foldl more_urgent (0, None) (xs @ [x]) = (entry_average x, Some (entry_issue x))"
        by (simp add: st more_urgent_entry c)
      moreover have "\<forall>e' \<in> set (xs @ [x]). entry_average e' < entry_average x
                   \<or> (entry_average e' = entry_average x \<and> snd (snd e') \<le> snd (snd x))"
        using mx True by fastforce
      ultimately show ?thesis by auto
    next
      case False
      then have "more_urgent (entry_average e, Some (entry_issue e)) x
          = (entry_average e, Some (entry_issue e))"
        unfolding more_urgent_entry by (auto simp: c)
      then have "foldl more_urgent (0, None) (xs @ [x]) = (entry_average e, Some (entry_issue e))"
        by (simp add: st)
      moreover have "\<forall>e' \<in> set (xs @ [x]). entry_average e' < entry_average e
                   \<or> (entry_average e' = entry_average e \<and> snd (snd e') \<le> snd (snd e))"
        using mx False by fastforce
      ultimately show ?thesis using e by auto
    qed
  qed
qed

lemma note_themes_read:
  "note_themes p ts acc = foldl (\<lambda>a t. note_theme p t a) acc (read_themes ts)"
  by (induction p ts acc rule: note_themes.induct) simp_all

lemma foldl_note_theme_filter:
  "foldl (\<lambda>a t. note_theme p t a) acc (filter (\<lambda>t. t \<noteq> []) ms)
   = foldl (\<lambda>a t. note_theme p t a) acc ms"
  by (induction ms arbitrary: acc) (auto simp: note_theme_def)

lemma foldl_map_pair:
  "foldl (\<lambda>a e. note_theme (snd e) (fst e) a) acc (map (\<lambda>t. (t, p)) ms)
   = foldl (\<lambda>a t. note_theme p t a) acc ms"
  by (induction ms arbitrary: acc) simp_all

lemma note_row_mentions:
  "note_row acc f =
     foldl (\<lambda>a e. note_theme (snd e) (fst e) a) acc
       (if sentiment f = ''negative'' then map (\<lambda>t. (t, priority f)) (row_mentions f) else [])"
  by (auto simp: note_row_def row_mentions_def note_themes_read foldl_note_theme_filter
      foldl_map_pair split: option.splits json.splits)

lemma foldl_note_row:
  "foldl note_row acc fb
     = foldl (\<lambda>a e. note_theme (snd e) (fst e) a) acc (negative_mentions fb)"
  by (induction fb arbitrary: acc) (simp_all add: negative_mentions_def note_row_mentions)

lemma negative_mentions_nonempty: "e \<in> set (negative_mentions fb) \<Longrightarrow> fst e \<noteq> []"
  by (auto simp: negative_mentions_def row_mentions_def split: if_splits option.splits json.splits)

lemma negative_mentions_priority:
  "list_all (\<lambda>f. 1 \<le> priority f) fb \<Longrightarrow> e \<in> set (negative_mentions fb) \<Longrightarrow> 1 \<le> snd e"
  by (auto simp: negative_mentions_def list_all_iff split: if_splits)

lemma foldl_note_theme_plain:
  "list_all (\<lambda>e. fst e \<noteq> [] \<and> \<not> inherited (fst e)) nm \<Longrightarrow>
   foldl (\<lambda>a e. note_theme (snd e) (fst e) a) acc nm
     = foldl (\<lambda>a e. add_priority (fst e) (snd e) a) acc nm"
  by (induction nm arbitrary: acc) (simp_all add: note_theme_def)

lemma map_of_add_priority:
  "map_of (add_priority k p cs) t =
     (if t = k
      then Some (case map_of cs k of None \<Rightarrow> (p, 1) | Some v \<Rightarrow> (fst v + p, snd v + 1))
      else map_of cs t)"
  by (induction k p cs rule: add_priority.induct) auto

lemma keys_add_priority:
  "map fst (add_priority k p cs)
     = (if k \<in> set (map fst cs) then map fst cs else map fst cs @ [k])"
  by (induction k p cs rule: add_priority.induct) auto

lemma distinct_foldl_add_priority:
  "distinct (map fst cs) \<Longrightarrow>
   distinct (map fst (foldl (\<lambda>a e. add_priority (fst e) (snd e) a) cs nm))"
  by (induction nm arbitrary: cs) (auto simp: keys_add_priority)

lemma map_of_foldl_add_priority:
  "map_of (foldl (\<lambda>a e. add_priority (fst e) (snd e) a) cs nm) t =
     (case map_of cs t of
        None \<Rightarrow> if t \<in> fst ` set nm then Some (priority_sum nm t, occurrences nm t) else None
      | Some v \<Rightarrow> Some (fst v + priority_sum nm t, snd v + occurrences nm t))"
  by (induction nm arbitrary: cs)
    (auto simp: map_of_add_priority priority_sum_def occurrences_def split: option.splits)

lemma entries_of_negative:
  assumes "list_all (\<lambda>e. \<not> inherited (fst e)) (negative_mentions fb)"
  defines "nm \<equiv> negative_mentions fb"
  shows "set (negativeThemePriorities fb)
     = (\<lambda>t. (t, priority_sum nm t, occurrences nm t)) ` fst ` set nm"
proof -
  let ?E = "foldl (\<lambda>a e. add_priority (fst e) (snd e) a) [] nm"
  have pl: "list_all (\<lambda>e. fst e \<noteq> [] \<and> \<not> inherited (fst e)) nm"
    using assms(1) negative_mentions_nonempty[of _ fb] by (auto simp: list_all_iff nm_def)
  have E: "negativeThemePriorities fb = ?E"
    unfolding negativeThemePriorities_def foldl_note_row nm_def[symmetric]
    by (rule foldl_note_theme_plain[OF pl])
  have d: "distinct (map fst ?E)" by (rule distinct_foldl_add_priority) simp
  have m: "map_of ?E t =
     (if t \<in> fst ` set nm then Some (priority_sum nm t, occurrences nm t) else None)" for t
    by (simp add: map_of_foldl_add_priority)
  have "(t, v) \<in> set ?E \<longleftrightarrow> (t \<in> fst ` set nm \<and> v = (priority_sum nm t, occurrences nm t))" for t v
  proof -
    have "(t, v) \<in> set ?E \<longleftrightarrow> map_of ?E t = Some v"
      by (simp only: map_of_eq_Some_iff[OF d])
    also have "\<dots> \<longleftrightarrow> (t \<in> fst ` set nm \<and> v = (priority_sum nm t, occurrences nm t))"
      unfolding m by (cases "t \<in> fst ` set nm") auto
    finally show ?thesis .
  qed
  then have "set ?E = (\<lambda>t. (t, priority_sum nm t, occurrences nm t)) ` fst ` set nm"
    by (intro set_eqI) (auto simp del: map_of_eq_Some_iff)
  then show ?thesis unfolding E .
qed

lemma length_le_sum_priorities:
  "list_all (\<lambda>e. 1 \<le> snd e) xs \<Longrightarrow> int (length xs) \<le> sum_list (map snd xs)"
  for xs :: "(string \<times> int) list"
  by (induction xs) auto

lemma average_positive:
  assumes "list_all (\<lambda>e. 1 \<le> snd e) nm" and "t \<in> fst ` set nm"
  shows "0 < average nm t \<and> 0 < occurrences nm t"
proof -
  have o: "0 < occurrences nm t"
    using assms(2) by (auto simp: occurrences_def filter_empty_conv)
  have "list_all (\<lambda>e. 1 \<le> snd e) (filter (\<lambda>e. fst e = t) nm)"
    using assms(1) by (auto simp: list_all_iff)
  then have "int (length (filter (\<lambda>e. fst e = t) nm))
      \<le> sum_list (map snd (filter (\<lambda>e. fst e = t) nm))"
    by (rule length_le_sum_priorities)
  moreover have "0 < int (length (filter (\<lambda>e. fst e = t) nm))"
    using o unfolding occurrences_def by (simp only: of_nat_0_less_iff)
  ultimately have "0 < priority_sum nm t" unfolding priority_sum_def by linarith
  then have "0 < rat_of_int (priority_sum nm t) / rat_of_nat (occurrences nm t)"
    using o by simp
  then show ?thesis using o by (simp add: average_def js_div_def fl_pos)
qed

text \<open>
  For rows whose negative themes are none of the two inherited names and whose
  priorities are at least 1 (the \<^verbatim>\<open>CHECK\<close> of the schema), the code does what C2 says:
  no issue when no negative row carries a theme; otherwise the issue of a theme of a
  negative row, with the number of its occurrences and its average rounded to one
  decimal, such that every theme has a smaller average, or the same average and at
  most as many occurrences.
\<close>

lemma mostUrgentIssue_selects:
  assumes no_inherited: "list_all (\<lambda>e. \<not> inherited (fst e)) (negative_mentions fb)"
    and priorities: "list_all (\<lambda>f. 1 \<le> priority f) fb"
  shows "(negative_mentions fb = [] \<longrightarrow> mostUrgentIssue fb = None)
     \<and> (negative_mentions fb \<noteq> [] \<longrightarrow>
          (\<exists>u. mostUrgentIssue fb = Some u
             \<and> theme u \<in> fst ` set (negative_mentions fb)
             \<and> count u = occurrences (negative_mentions fb) (theme u)
             \<and> avgPriority u = round_1_decimal (average (negative_mentions fb) (theme u))
             \<and> (\<forall>t \<in> fst ` set (negative_mentions fb).
                   average (negative_mentions fb) t < average (negative_mentions fb) (theme u)
                   \<or> (average (negative_mentions fb) t = average (negative_mentions fb) (theme u)
                       \<and> occurrences (negative_mentions fb) t \<le> count u))))"
proof -
  define nm where "nm = negative_mentions fb"
  define es where "es = Object_entries (negativeThemePriorities fb)"
  have ses: "set es = (\<lambda>t. (t, priority_sum nm t, occurrences nm t)) ` fst ` set nm"
    unfolding es_def nm_def by (simp add: entries_of_negative[OF no_inherited])
  have avg: "entry_average (t, priority_sum nm t, occurrences nm t) = average nm t" for t
    by (simp add: entry_average_def average_def)
  have p1: "list_all (\<lambda>e. 1 \<le> snd e) nm"
    using negative_mentions_priority[OF priorities] by (auto simp: list_all_iff nm_def)
  have pos: "list_all (\<lambda>e. 0 < entry_average e) es"
    using ses average_positive[OF p1] by (auto simp: list_all_iff avg)
  note f = foldl_more_urgent[OF pos]
  have mu: "mostUrgentIssue fb = snd (foldl more_urgent (0, None) es)"
    by (simp add: mostUrgentIssue_def es_def)
  have 1: "nm = [] \<longrightarrow> mostUrgentIssue fb = None"
  proof
    assume "nm = []"
    then have "set es = {}" using ses by simp
    then have "es = []" by simp
    with f show "mostUrgentIssue fb = None" by (simp add: mu)
  qed
  have 2: "nm \<noteq> [] \<longrightarrow>
          (\<exists>u. mostUrgentIssue fb = Some u
             \<and> theme u \<in> fst ` set nm
             \<and> count u = occurrences nm (theme u)
             \<and> avgPriority u = round_1_decimal (average nm (theme u))
             \<and> (\<forall>t \<in> fst ` set nm.
                   average nm t < average nm (theme u)
                   \<or> (average nm t = average nm (theme u) \<and> occurrences nm t \<le> count u)))"
  proof
    assume "nm \<noteq> []"
    then have "set es \<noteq> {}" using ses by simp
    then have "es \<noteq> []" by auto
    with f obtain e where e: "e \<in> set es"
      and st: "foldl more_urgent (0, None) es = (entry_average e, Some (entry_issue e))"
      and mx: "\<forall>e' \<in> set es. entry_average e' < entry_average e
                   \<or> (entry_average e' = entry_average e \<and> snd (snd e') \<le> snd (snd e))"
      by blast
    from e ses obtain t0 where t0: "t0 \<in> fst ` set nm"
      and e0: "e = (t0, priority_sum nm t0, occurrences nm t0)" by blast
    have a: "mostUrgentIssue fb = Some (entry_issue e)" by (simp add: mu st)
    have b: "theme (entry_issue e) = t0" "count (entry_issue e) = occurrences nm t0"
      "avgPriority (entry_issue e) = round_1_decimal (average nm t0)"
      by (simp_all add: entry_issue_def e0 avg)
    have c: "\<forall>t \<in> fst ` set nm.
                   average nm t < average nm t0
                   \<or> (average nm t = average nm t0 \<and> occurrences nm t \<le> occurrences nm t0)"
    proof
      fix t assume "t \<in> fst ` set nm"
      then have "(t, priority_sum nm t, occurrences nm t) \<in> set es" using ses by blast
      from mx[rule_format, OF this] show "average nm t < average nm t0
                   \<or> (average nm t = average nm t0 \<and> occurrences nm t \<le> occurrences nm t0)"
        by (simp add: avg e0)
    qed
    show "\<exists>u. mostUrgentIssue fb = Some u
             \<and> theme u \<in> fst ` set nm
             \<and> count u = occurrences nm (theme u)
             \<and> avgPriority u = round_1_decimal (average nm (theme u))
             \<and> (\<forall>t \<in> fst ` set nm.
                   average nm t < average nm (theme u)
                   \<or> (average nm t = average nm (theme u) \<and> occurrences nm t \<le> count u))"
      using a b c t0 by (intro exI[of _ "entry_issue e"]) simp
  qed
  from 1 2 show ?thesis unfolding nm_def by blast
qed

lemma mostUrgentIssue_example:
  "mostUrgentIssue rows_urgent = Some \<lparr>theme = ''api'', count = 2, avgPriority = 5\<rparr>
   \<and> negative_mentions rows_urgent
       = [(''api'', 5), (''ui'', 5), (''ui'', 2), (''api'', 5), (''docs'', 5)]
   \<and> average (negative_mentions rows_urgent) ''ui'' = 7 / 2"
  by code_simp


end
